theory Spec2Isabelle
  imports Complex_Main
begin

section \<open>The polygon editor of src/components/Canvas.tsx\<close>

text \<open>
  The component keeps eight pieces of React state and changes them from five event
  handlers. A handler reads the state of the render that created it and queues its
  updates, so every read inside a handler sees the state from before the event; the
  model passes that state in and returns the updated one.

  Coordinates are JavaScript numbers, that is IEEE 754 binary64 values. A finite one is
  the real number it denotes, and every arithmetic operation of the source returns the
  exact result rounded to the nearest such value (\<open>double\<close> below). Indices are natural
  numbers; a read of a list out of its range, which in the source gives \<open>undefined\<close> and
  throws at the property access that follows, is an error value.
\<close>

subsection \<open>Numbers\<close>

text \<open>
  Rounding to binary64: round to nearest, ties to even, with a 53-bit significand and
  gradual underflow (the least exponent of the last place is \<open>-1074\<close>, so that a result
  below \<open>2 powi - 1075\<close> in magnitude becomes zero). Not modelled: overflow to \<open>Infinity\<close>,
  which needs a result of magnitude \<open>2 powi 1024\<close>, \<open>NaN\<close>, and the sign of zero; none arises
  from finite coordinates of pixel magnitude.
\<close>

definition roundEven :: "real \<Rightarrow> int" where
  "roundEven q =
     (let f = \<lfloor>q\<rfloor>; r = q - of_int f
      in if r < 1 / 2 then f
         else if 1 / 2 < r then f + 1
         else if even f then f else f + 1)"

definition ulpExponent :: "real \<Rightarrow> int" where
  "ulpExponent v = max (\<lfloor>log 2 \<bar>v\<bar>\<rfloor> - 52) (- 1074)"

definition double :: "real \<Rightarrow> real" where
  "double v =
     (if v = 0 then 0
      else of_int (roundEven (v / 2 powi ulpExponent v)) * 2 powi ulpExponent v)"

text \<open>
  The operations of the source on numbers: \<open>a + b\<close>, \<open>a - b\<close>, \<open>a * b\<close>, \<open>a / b\<close>,
  \<open>Math.sqrt(a)\<close> and \<open>Math.pow(a, 2)\<close>, each correctly rounded. The comparisons \<open><\<close>, \<open>>\<close>
  and \<open>===\<close> of finite numbers are exact.
\<close>

definition fadd :: "real \<Rightarrow> real \<Rightarrow> real" where
  "fadd a b = double (a + b)"

definition fsub :: "real \<Rightarrow> real \<Rightarrow> real" where
  "fsub a b = double (a - b)"

definition fmul :: "real \<Rightarrow> real \<Rightarrow> real" where
  "fmul a b = double (a * b)"

definition fdiv :: "real \<Rightarrow> real \<Rightarrow> real" where
  "fdiv a b = double (a / b)"

definition fsqrt :: "real \<Rightarrow> real" where
  "fsqrt a = double (sqrt a)"

definition fpow2 :: "real \<Rightarrow> real" where
  "fpow2 a = double (a\<^sup>2)"

subsection \<open>Data\<close>

record Point =
  x :: real
  y :: real

record Polygon =
  points :: "Point list"
  color :: string

datatype Tool = Hand | Pencil | Select

datatype DragMode = Move | Resize

definition HANDLE_SIZE :: real where
  "HANDLE_SIZE = 8"

definition EDGE_DETECTION_THRESHOLD :: real where
  "EDGE_DETECTION_THRESHOLD = 10"

definition colors :: "string list" where
  "colors = [''#3498db'', ''#e74c3c'', ''#2ecc71'', ''#f1c40f'',
             ''#9b59b6'', ''#1abc9c'', ''#e67e22'', ''#34495e'']"

record State =
  currentPoints :: "Point list"
  polygons :: "Polygon list"
  selectedPolygon :: "nat option"
  isDragging :: bool
  dragStart :: "Point option"
  activeTool :: Tool
  dragMode :: DragMode
  selectedHandle :: "nat option"

definition initialState :: State where
  "initialState =
     \<lparr>currentPoints = [], polygons = [], selectedPolygon = None, isDragging = False,
      dragStart = None, activeTool = Pencil, dragMode = Move, selectedHandle = None\<rparr>"

datatype error = TypeError

subsection \<open>Geometry\<close>

text \<open>The distance expression that the source writes out at each of its four uses.\<close>

definition distance :: "Point \<Rightarrow> Point \<Rightarrow> real" where
  "distance a b = fsqrt (fadd (fpow2 (fsub (x a) (x b))) (fpow2 (fsub (y a) (y b))))"



definition projectPointOnLine :: "Point \<Rightarrow> Point \<Rightarrow> Point \<Rightarrow> Point option" where
  "projectPointOnLine point start endp =
     (let dx = fsub (x endp) (x start);
          dy = fsub (y endp) (y start);
          len = fsqrt (fadd (fmul dx dx) (fmul dy dy))
      in if len = 0 then None
         else let t = fdiv (fadd (fmul (fsub (x point) (x start)) dx)
                                 (fmul (fsub (y point) (y start)) dy))
                           (fmul len len)
              in if t < 0 \<or> t > 1 then None
                 else Some \<lparr>x = fadd (x start) (fmul t dx), y = fadd (y start) (fmul t dy)\<rparr>)"

text \<open>
  \<open>findClosestEdgePoint\<close>: the \<open>for\<close> loop over the edges, with its three variables
  \<open>closestPoint\<close>, \<open>closestDistance\<close> (\<open>None\<close> is the initial \<open>Infinity\<close>) and
  \<open>insertIndex\<close> (initially \<open>-1\<close>). A projection that is \<open>null\<close> is the \<open>continue\<close>.
\<close>

function findClosestEdgePoint_loop ::
  "Point \<Rightarrow> Point list \<Rightarrow> nat \<Rightarrow> Point option \<times> real option \<times> int
     \<Rightarrow> Point option \<times> real option \<times> int" where
  "findClosestEdgePoint_loop point polygonPoints i (closestPoint, closestDistance, insertIndex) =
     (if i < length polygonPoints then
        let start = polygonPoints ! i;
            endp = polygonPoints ! ((i + 1) mod length polygonPoints)
        in case projectPointOnLine point start endp of
             None \<Rightarrow>
               findClosestEdgePoint_loop point polygonPoints (i + 1)
                 (closestPoint, closestDistance, insertIndex)
           | Some projection \<Rightarrow>
               let d = distance point projection
               in if d < EDGE_DETECTION_THRESHOLD \<and>
                     (case closestDistance of None \<Rightarrow> True | Some c \<Rightarrow> d < c)
                  then findClosestEdgePoint_loop point polygonPoints (i + 1)
                         (Some projection, Some d, int i + 1)
                  else findClosestEdgePoint_loop point polygonPoints (i + 1)
                         (closestPoint, closestDistance, insertIndex)
      else (closestPoint, closestDistance, insertIndex))"
  by pat_completeness auto
termination
  by (relation "measure (\<lambda>(point, polygonPoints, i, acc). length polygonPoints - i)") auto

declare findClosestEdgePoint_loop.simps [simp del]

text \<open>The result object \<open>{point, index}\<close> is a pair; \<open>null\<close> is \<open>None\<close>.\<close>

definition findClosestEdgePoint :: "Point \<Rightarrow> Point list \<Rightarrow> (Point \<times> nat) option" where
  "findClosestEdgePoint point polygonPoints =
     (case findClosestEdgePoint_loop point polygonPoints 0 (None, None, - 1) of
        (closestPoint, closestDistance, insertIndex) \<Rightarrow>
          (case closestPoint of
             None \<Rightarrow> None
           | Some c \<Rightarrow> Some (c, nat insertIndex)))"

text \<open>
  \<open>isPointInPolygon\<close>: the loop \<open>for (i = 0, j = length - 1; i < length; j = i++)\<close>.
  \<open>j\<close> is an integer, since it starts at \<open>-1\<close> on the empty list (where the body never
  runs). The division is only evaluated when the two \<open>y\<close> differ, as \<open>&&\<close> is lazy.
\<close>

function isPointInPolygon_loop :: "Point \<Rightarrow> Point list \<Rightarrow> nat \<Rightarrow> int \<Rightarrow> bool \<Rightarrow> bool" where
  "isPointInPolygon_loop point polygonPoints i j inside =
     (if i < length polygonPoints then
        let xi = x (polygonPoints ! i);
            yi = y (polygonPoints ! i);
            xj = x (polygonPoints ! nat j);
            yj = y (polygonPoints ! nat j);
            intersect = ((yi > y point) \<noteq> (yj > y point) \<and>
                         x point < fadd (fdiv (fmul (fsub xj xi) (fsub (y point) yi))
                                              (fsub yj yi)) xi)
        in isPointInPolygon_loop point polygonPoints (i + 1) (int i)
             (if intersect then \<not> inside else inside)
      else inside)"
  by pat_completeness auto
termination
  by (relation "measure (\<lambda>(point, polygonPoints, i, j, inside). length polygonPoints - i)") auto

declare isPointInPolygon_loop.simps [simp del]

definition isPointInPolygon :: "Point \<Rightarrow> Point list \<Rightarrow> bool" where
  "isPointInPolygon point polygonPoints =
     isPointInPolygon_loop point polygonPoints 0 (int (length polygonPoints) - 1) False"

definition isPointNearHandle :: "Point \<Rightarrow> Point \<Rightarrow> bool" where
  "isPointNearHandle point handlePoint \<longleftrightarrow> distance handlePoint point < HANDLE_SIZE"

subsection \<open>The pencil tool\<close>

text \<open>\<open>xs.splice(index, 0, v)\<close>: insert before position \<open>index\<close>, at the end when beyond it.\<close>

definition spliceInsert :: "nat \<Rightarrow> 'a \<Rightarrow> 'a list \<Rightarrow> 'a list" where
  "spliceInsert k v xs = take k xs @ [v] @ drop k xs"

text \<open>
  The edge-splitting loop \<open>for (i = polygons.length - 1; i >= 0; i--)\<close>; the argument
  \<open>Suc i\<close> stands for the loop variable \<open>i\<close>. It returns the first polygon, from the last
  one down, on which \<open>findClosestEdgePoint\<close> has a result, with that result.
\<close>

fun handlePencilInteraction_loop ::
  "Point \<Rightarrow> Polygon list \<Rightarrow> nat \<Rightarrow> (nat \<times> Point \<times> nat) option" where
  "handlePencilInteraction_loop point polys 0 = None"
| "handlePencilInteraction_loop point polys (Suc i) =
     (case findClosestEdgePoint point (points (polys ! i)) of
        Some edgePoint \<Rightarrow> Some (i, edgePoint)
      | None \<Rightarrow> handlePencilInteraction_loop point polys i)"

definition handlePencilInteraction :: "Point \<Rightarrow> State \<Rightarrow> State" where
  "handlePencilInteraction point s =
     (if length (currentPoints s) > 2 \<and> distance (currentPoints s ! 0) point < 20 then
        s\<lparr>polygons := polygons s @
              [\<lparr>points = currentPoints s,
                color = colors ! (length (polygons s) mod length colors)\<rparr>],
          currentPoints := []\<rparr>
      else
        (case (if length (currentPoints s) = 0
               then handlePencilInteraction_loop point (polygons s) (length (polygons s))
               else None) of
           Some (i, edgePoint, edgeIndex) \<Rightarrow>
             s\<lparr>polygons := (polygons s)
                  [i := (polygons s ! i)
                     \<lparr>points := spliceInsert edgeIndex edgePoint (points (polygons s ! i))\<rparr>],
               selectedPolygon := Some i,
               selectedHandle := Some edgeIndex\<rparr>
         | None \<Rightarrow> s\<lparr>currentPoints := currentPoints s @ [point]\<rparr>))"

subsection \<open>Press, move and release\<close>

text \<open>The handle loop of \<open>handleStart\<close>: the first vertex, in index order, near the point.\<close>

function handleStart_handleLoop :: "Point \<Rightarrow> Point list \<Rightarrow> nat \<Rightarrow> nat option" where
  "handleStart_handleLoop point pts i =
     (if i < length pts then
        (if isPointNearHandle point (pts ! i) then Some i
         else handleStart_handleLoop point pts (i + 1))
      else None)"
  by pat_completeness auto
termination
  by (relation "measure (\<lambda>(point, pts, i). length pts - i)") auto

declare handleStart_handleLoop.simps [simp del]

text \<open>The fill loop of \<open>handleStart\<close>, from the last polygon down; \<open>None\<close> is \<open>!found\<close>.\<close>

fun handleStart_fillLoop :: "Point \<Rightarrow> Polygon list \<Rightarrow> nat \<Rightarrow> nat option" where
  "handleStart_fillLoop point polys 0 = None"
| "handleStart_fillLoop point polys (Suc i) =
     (if isPointInPolygon point (points (polys ! i)) then Some i
      else handleStart_fillLoop point polys i)"

text \<open>Lines 252 to 267 of \<open>handleStart\<close>: what happens when no handle was hit.\<close>

definition handleStart_fill :: "Point \<Rightarrow> State \<Rightarrow> State" where
  "handleStart_fill point s =
     (case handleStart_fillLoop point (polygons s) (length (polygons s)) of
        Some i \<Rightarrow>
          s\<lparr>selectedPolygon := Some i, isDragging := True,
            dragStart := Some point, dragMode := Move\<rparr>
      | None \<Rightarrow> s\<lparr>selectedPolygon := None, selectedHandle := None\<rparr>)"

definition handleStart :: "Point \<Rightarrow> State \<Rightarrow> error + State" where
  "handleStart point s =
     (if activeTool s = Pencil then Inr s
      else
        (case (if activeTool s = Select then selectedPolygon s else None) of
           Some k \<Rightarrow>
             if k < length (polygons s) then
               (case handleStart_handleLoop point (points (polygons s ! k)) 0 of
                  Some i \<Rightarrow>
                    Inr (s\<lparr>dragMode := Resize, selectedHandle := Some i,
                           isDragging := True, dragStart := Some point\<rparr>)
                | None \<Rightarrow> Inr (handleStart_fill point s))
             else Inl TypeError
         | None \<Rightarrow> Inr (handleStart_fill point s)))"

definition handleMove :: "Point \<Rightarrow> State \<Rightarrow> error + State" where
  "handleMove point s =
     (case (isDragging s, selectedPolygon s, dragStart s) of
        (True, Some k, Some anchor) \<Rightarrow>
          let dx = fsub (x point) (x anchor);
              dy = fsub (y point) (y anchor)
          in (case (dragMode s, selectedHandle s) of
                (Resize, Some h) \<Rightarrow>
                  if k < length (polygons s) \<and> h < length (points (polygons s ! k)) then
                    Inr (s\<lparr>polygons := (polygons s)
                             [k := (polygons s ! k)
                                \<lparr>points := (points (polygons s ! k))
                                   [h := \<lparr>x = fadd (x (points (polygons s ! k) ! h)) dx,
                                          y = fadd (y (points (polygons s ! k) ! h)) dy\<rparr>]\<rparr>],
                           dragStart := Some point\<rparr>)
                  else Inl TypeError
              | (Move, _) \<Rightarrow>
                  if k < length (polygons s) then
                    Inr (s\<lparr>polygons := (polygons s)
                             [k := (polygons s ! k)
                                \<lparr>points := map (\<lambda>p. \<lparr>x = fadd (x p) dx, y = fadd (y p) dy\<rparr>)
                                             (points (polygons s ! k))\<rparr>],
                           dragStart := Some point\<rparr>)
                  else Inl TypeError
              | (Resize, None) \<Rightarrow> Inr (s\<lparr>dragStart := Some point\<rparr>))
      | _ \<Rightarrow> Inr s)"

definition handleEnd :: "State \<Rightarrow> State" where
  "handleEnd s =
     s\<lparr>isDragging := False, dragStart := None, dragMode := Move,
       selectedHandle := (if \<not> isDragging s then None else selectedHandle s)\<rparr>"

definition handleInteraction :: "Point \<Rightarrow> State \<Rightarrow> State" where
  "handleInteraction point s =
     (if isDragging s then s
      else if activeTool s = Pencil then handlePencilInteraction point s
      else s)"

definition handleToolChange :: "Tool \<Rightarrow> State \<Rightarrow> State" where
  "handleToolChange tool s =
     s\<lparr>activeTool := tool,
       selectedPolygon := (if tool = Pencil then None else selectedPolygon s),
       selectedHandle := (if tool = Pencil then None else selectedHandle s),
       isDragging := False,
       dragStart := None,
       currentPoints := (if tool = Hand \<or> tool = Select then [] else currentPoints s)\<rparr>"

subsection \<open>The state machine\<close>

text \<open>
  The events the canvas and the toolbar deliver: press (\<open>onMouseDown\<close>, and \<open>onTouchStart\<close>
  outside the pencil tool), move, release or cancel (\<open>onMouseUp\<close>, \<open>onTouchEnd\<close>,
  \<open>onMouseLeave\<close>, \<open>onTouchCancel\<close>), click (\<open>onClick\<close>, and \<open>onTouchStart\<close> in the pencil
  tool) and a toolbar button. A handler that throws has called no setter before, so the
  state stays as it was.
\<close>

datatype Event = Press Point | Drag Point | Release | Click Point | ToolButton Tool

fun step :: "Event \<Rightarrow> State \<Rightarrow> State" where
  "step (Press point) s = (case handleStart point s of Inl e \<Rightarrow> s | Inr s' \<Rightarrow> s')"
| "step (Drag point) s = (case handleMove point s of Inl e \<Rightarrow> s | Inr s' \<Rightarrow> s')"
| "step Release s = handleEnd s"
| "step (Click point) s = handleInteraction point s"
| "step (ToolButton tool) s = handleToolChange tool s"

inductive reachable :: "State \<Rightarrow> bool" where
  initial: "reachable initialState"
| after: "reachable s \<Longrightarrow> reachable (step e s)"

text \<open>
  A press that hits nothing: outside the pencil tool, no vertex of the selected polygon
  is near the point (the test \<open>handleStart\<close> makes in the select tool), and no polygon
  contains it, so that \<open>handleStart\<close> ends in its \<open>!found\<close> branch.
\<close>

definition pressHitsNothing :: "Point \<Rightarrow> State \<Rightarrow> bool" where
  "pressHitsNothing point s \<longleftrightarrow>
     activeTool s \<noteq> Pencil \<and>
     (case (if activeTool s = Select then selectedPolygon s else None) of
        Some k \<Rightarrow>
          k < length (polygons s) \<and>
          handleStart_handleLoop point (points (polygons s ! k)) 0 = None
      | None \<Rightarrow> True) \<and>
     handleStart_fillLoop point (polygons s) (length (polygons s)) = None"

text \<open>The states reached when no press that hits nothing arrives while a drag is active.\<close>

inductive reachableWithoutMiss :: "State \<Rightarrow> bool" where
  initialWithoutMiss: "reachableWithoutMiss initialState"
| afterWithoutMiss:
    "reachableWithoutMiss s \<Longrightarrow>
     (\<forall>point. e = Press point \<longrightarrow> isDragging s \<longrightarrow> \<not> pressHitsNothing point s) \<Longrightarrow>
     reachableWithoutMiss (step e s)"

subsection \<open>Notions of the specification\<close>

text \<open>
  The edge \<open>i\<close> of a point sequence goes from point \<open>i\<close> to point \<open>(i + 1) mod n\<close>;
  \<open>edgeProjection\<close> is the projection of a point onto it.
\<close>

definition edgeProjection :: "Point \<Rightarrow> Point list \<Rightarrow> nat \<Rightarrow> Point option" where
  "edgeProjection point pts i =
     projectPointOnLine point (pts ! i) (pts ! ((i + 1) mod length pts))"

text \<open>
  The invariant of the loop of \<open>findClosestEdgePoint\<close> after the edges below \<open>n\<close>: either
  nothing is kept and none of these edges has a projection closer than the threshold, or
  the kept point is the projection onto one of them, \<open>i\<close>, with \<open>insertIndex = i + 1\<close>, no
  such edge is closer, and every earlier one is farther.
\<close>

definition closestSoFar ::
  "Point \<Rightarrow> Point list \<Rightarrow> nat \<Rightarrow> Point option \<times> real option \<times> int \<Rightarrow> bool" where
  "closestSoFar point pts n acc \<longleftrightarrow>
     (case acc of (closestPoint, closestDistance, insertIndex) \<Rightarrow>
        (case closestPoint of
           None \<Rightarrow>
             closestDistance = None \<and>
             (\<forall>j<n. \<forall>q. edgeProjection point pts j = Some q \<longrightarrow>
                       \<not> distance point q < EDGE_DETECTION_THRESHOLD)
         | Some c \<Rightarrow>
             closestDistance = Some (distance point c) \<and>
             (\<exists>i<n. insertIndex = int i + 1 \<and>
                edgeProjection point pts i = Some c \<and>
                distance point c < EDGE_DETECTION_THRESHOLD \<and>
                (\<forall>j<n. \<forall>q. edgeProjection point pts j = Some q \<and>
                          distance point q < EDGE_DETECTION_THRESHOLD \<longrightarrow>
                          distance point c \<le> distance point q) \<and>
                (\<forall>j<i. \<forall>q. edgeProjection point pts j = Some q \<and>
                          distance point q < EDGE_DETECTION_THRESHOLD \<longrightarrow>
                          distance point c < distance point q))))"




subsection \<open>Example inputs\<close>

text \<open>
  A square and a triangle as the pencil commits them, with the palette's first two
  colors, and the clicks that draw them: the corners in order, then a click near the first
  corner.
\<close>

definition square :: Polygon where
  "square = \<lparr>points = [\<lparr>x = 0, y = 0\<rparr>, \<lparr>x = 100, y = 0\<rparr>, \<lparr>x = 100, y = 100\<rparr>, \<lparr>x = 0, y = 100\<rparr>],
              color = ''#3498db''\<rparr>"

definition triangle :: Polygon where
  "triangle = \<lparr>points = [\<lparr>x = 200, y = 200\<rparr>, \<lparr>x = 300, y = 200\<rparr>, \<lparr>x = 300, y = 300\<rparr>],
                color = ''#e74c3c''\<rparr>"

definition squareClicks :: "Event list" where
  "squareClicks = [Click \<lparr>x = 0, y = 0\<rparr>, Click \<lparr>x = 100, y = 0\<rparr>, Click \<lparr>x = 100, y = 100\<rparr>,
                   Click \<lparr>x = 0, y = 100\<rparr>, Click \<lparr>x = 5, y = 5\<rparr>]"

definition triangleClicks :: "Event list" where
  "triangleClicks = [Click \<lparr>x = 200, y = 200\<rparr>, Click \<lparr>x = 300, y = 200\<rparr>,
                     Click \<lparr>x = 300, y = 300\<rparr>, Click \<lparr>x = 205, y = 205\<rparr>]"

text \<open>
  With the hand tool: a press inside the square, then a second press, on empty canvas,
  before any release.
\<close>

definition dragStarted :: "Event list" where
  "dragStarted = squareClicks @ [ToolButton Hand, Press \<lparr>x = 50, y = 50\<rparr>]"

definition dragThenMiss :: "Event list" where
  "dragThenMiss = squareClicks @ [ToolButton Hand, Press \<lparr>x = 50, y = 50\<rparr>, Press \<lparr>x = 500, y = 500\<rparr>]"

text \<open>
  With the select tool: a press inside the square and a release, a press on the square's
  fourth corner and a release, then a press inside the triangle.
\<close>

definition staleHandleTrace :: "Event list" where
  "staleHandleTrace = squareClicks @ triangleClicks @
     [ToolButton Select, Press \<lparr>x = 50, y = 50\<rparr>, Release, Press \<lparr>x = 0, y = 100\<rparr>, Release,
      Press \<lparr>x = 290, y = 250\<rparr>]"

section \<open>Properties\<close>

subsection \<open>Rounding to binary64\<close>

lemma powr_powi_2: "(2::real) powr real_of_int j = 2 powi j"
  by (simp add: powr_real_of_int')

lemma binade_iff:
  fixes v :: real
  assumes "v \<noteq> 0"
  shows "\<lfloor>log 2 \<bar>v\<bar>\<rfloor> = k \<longleftrightarrow> 2 powi k \<le> \<bar>v\<bar> \<and> \<bar>v\<bar> < 2 powi (k + 1)"
proof -
  have "0 < \<bar>v\<bar>" using assms by simp
  then have "\<lfloor>log 2 \<bar>v\<bar>\<rfloor> = k \<longleftrightarrow>
      2 powr real_of_int k \<le> \<bar>v\<bar> \<and> \<bar>v\<bar> < 2 powr real_of_int (k + 1)"
    by (rule floor_log_eq_powr_iff) simp
  then show ?thesis unfolding powr_powi_2 .
qed


lemma binade_bounds:
  fixes v :: real
  assumes "v \<noteq> 0"
  shows "2 powi \<lfloor>log 2 \<bar>v\<bar>\<rfloor> \<le> \<bar>v\<bar>" and "\<bar>v\<bar> < 2 powi (\<lfloor>log 2 \<bar>v\<bar>\<rfloor> + 1)"
  using binade_iff [OF assms, of "\<lfloor>log 2 \<bar>v\<bar>\<rfloor>"] by simp_all

lemma ulpExponent_ge: "- 1074 \<le> ulpExponent v"
  by (simp add: ulpExponent_def)


lemma ulpExponent_upper:
  assumes "v \<noteq> 0"
  shows "\<bar>v\<bar> < 2 powi (ulpExponent v + 53)"
proof -
  have "\<lfloor>log 2 \<bar>v\<bar>\<rfloor> + 1 \<le> ulpExponent v + 53" by (simp add: ulpExponent_def)
  then have "(2::real) powi (\<lfloor>log 2 \<bar>v\<bar>\<rfloor> + 1) \<le> 2 powi (ulpExponent v + 53)"
    by (intro power_int_increasing) simp_all
  with binade_bounds(2) [OF assms] show ?thesis by linarith
qed

lemma ulpExponent_lower:
  assumes "v \<noteq> 0" and "- 1074 < ulpExponent v"
  shows "2 powi (ulpExponent v + 52) \<le> \<bar>v\<bar>"
proof -
  from assms(2) have "ulpExponent v = \<lfloor>log 2 \<bar>v\<bar>\<rfloor> - 52"
    by (simp add: ulpExponent_def max_def split: if_splits)
  then have "ulpExponent v + 52 = \<lfloor>log 2 \<bar>v\<bar>\<rfloor>" by simp
  with binade_bounds(1) [OF assms(1)] show ?thesis by simp
qed

lemma ulpExponent_mono:
  assumes "a \<noteq> 0" and "\<bar>a\<bar> \<le> \<bar>b\<bar>"
  shows "ulpExponent a \<le> ulpExponent b"
proof -
  from assms have b: "b \<noteq> 0" by auto
  have "log 2 \<bar>a\<bar> \<le> log 2 \<bar>b\<bar>" using assms by simp
  then have "\<lfloor>log 2 \<bar>a\<bar>\<rfloor> \<le> \<lfloor>log 2 \<bar>b\<bar>\<rfloor>" by (rule floor_mono)
  then show ?thesis by (simp add: ulpExponent_def)
qed

lemma roundEven_of_int: "roundEven (of_int n) = n"
  by (simp add: roundEven_def)

lemma roundEven_le:
  assumes "q \<le> of_int n"
  shows "roundEven q \<le> n"
proof (cases "\<lfloor>q\<rfloor> < n")
  case True
  then show ?thesis by (simp add: roundEven_def Let_def)
next
  case False
  moreover from assms have "\<lfloor>q\<rfloor> \<le> n" by (simp add: floor_le_iff)
  ultimately have f: "\<lfloor>q\<rfloor> = n" by simp
  with assms have "q - of_int \<lfloor>q\<rfloor> \<le> 0" by simp
  then have "q - of_int \<lfloor>q\<rfloor> < 1 / 2" by linarith
  with f show ?thesis by (simp add: roundEven_def Let_def)
qed

lemma roundEven_ge:
  assumes "of_int n \<le> q"
  shows "n \<le> roundEven q"
proof -
  from assms have "n \<le> \<lfloor>q\<rfloor>" by (simp add: le_floor_iff)
  then show ?thesis by (simp add: roundEven_def Let_def)
qed

lemma double_zero [simp]: "double 0 = 0"
  by (simp add: double_def)



lemma double_scaled:
  assumes "v = of_int m * 2 powi e" and "ulpExponent v \<le> e"
  shows "double v = v"
proof (cases "v = 0")
  case True
  then show ?thesis by simp
next
  case False
  define u where "u = ulpExponent v"
  define n where "n = nat (e - u)"
  from assms(2) have e: "e = u + int n" by (simp add: u_def n_def)
  have "(2::real) powi e = 2 powi u * 2 ^ n"
    unfolding e by (simp add: power_int_add)
  with assms(1) have v: "v = of_int (m * 2 ^ n) * 2 powi u" by simp
  then have "v / 2 powi u = of_int (m * 2 ^ n)" by simp
  then have r: "roundEven (v / 2 powi u) = m * 2 ^ n" by (simp only: roundEven_of_int)
  have "double v = of_int (roundEven (v / 2 powi u)) * 2 powi u"
    using False by (simp add: double_def u_def)
  also have "\<dots> = of_int (m * 2 ^ n) * 2 powi u" by (simp only: r)
  also have "\<dots> = v" by (simp only: v [symmetric])
  finally show ?thesis .
qed

lemma double_exact:
  assumes "\<bar>m\<bar> < 2 ^ 53" and "- 1074 \<le> e"
  shows "double (of_int m * 2 powi e) = of_int m * 2 powi e"
proof (cases "m = 0")
  case True
  then show ?thesis by simp
next
  case False
  define v :: real where "v = of_int m * 2 powi e"
  from False have v0: "v \<noteq> 0" by (simp add: v_def)
  have "\<bar>v\<bar> = of_int \<bar>m\<bar> * 2 powi e" by (simp add: v_def abs_mult)
  also have "\<dots> < 2 ^ 53 * 2 powi e"
  proof -
    from assms(1) have "real_of_int \<bar>m\<bar> < real_of_int (2 ^ 53)" by (simp only: of_int_less_iff)
    then have "real_of_int \<bar>m\<bar> < 2 ^ 53" by simp
    then show ?thesis by (simp add: mult_strict_right_mono)
  qed
  also have "\<dots> = 2 powi (e + 53)" by (simp add: power_int_add)
  finally have ub: "\<bar>v\<bar> < 2 powi (e + 53)" .
  have "\<lfloor>log 2 \<bar>v\<bar>\<rfloor> < e + 53"
  proof (rule ccontr)
    assume "\<not> \<lfloor>log 2 \<bar>v\<bar>\<rfloor> < e + 53"
    then have "(2::real) powi (e + 53) \<le> 2 powi \<lfloor>log 2 \<bar>v\<bar>\<rfloor>"
      by (intro power_int_increasing) simp_all
    with binade_bounds(1) [OF v0] ub show False by linarith
  qed
  with assms(2) have "ulpExponent v \<le> e" by (simp add: ulpExponent_def)
  then have "double v = v" by (intro double_scaled [of v m e]) (simp_all add: v_def)
  then show ?thesis by (simp add: v_def)
qed

lemma double_of_int:
  assumes "\<bar>n\<bar> < 2 ^ 53"
  shows "double (of_int n) = of_int n"
  using double_exact [OF assms, of 0] by simp

lemma double_dyadic:
  assumes "\<bar>n\<bar> < 2 ^ 53" and "k \<le> 1074"
  shows "double (of_int n / 2 ^ k) = of_int n / 2 ^ k"
proof -
  have "(2::real) powi (- int k) = 1 / 2 ^ k"
    by (simp add: power_int_minus field_simps)
  with double_exact [OF assms(1), of "- int k"] assms(2) show ?thesis by simp
qed

lemma double_nonpos: "v \<le> 0 \<Longrightarrow> double v \<le> 0"
proof (cases "v = 0")
  case False
  assume "v \<le> 0"
  then have "v / 2 powi ulpExponent v \<le> of_int 0" by (simp add: divide_nonpos_pos)
  then have "roundEven (v / 2 powi ulpExponent v) \<le> 0" by (rule roundEven_le)
  then have "real_of_int (roundEven (v / 2 powi ulpExponent v)) * 2 powi ulpExponent v \<le> 0"
    by (simp add: mult_nonpos_nonneg)
  with False show ?thesis by (simp add: double_def)
qed simp

lemma double_nonneg: "0 \<le> v \<Longrightarrow> 0 \<le> double v"
proof (cases "v = 0")
  case False
  assume "0 \<le> v"
  then have "of_int 0 \<le> v / 2 powi ulpExponent v" by simp
  then have "0 \<le> roundEven (v / 2 powi ulpExponent v)" by (rule roundEven_ge)
  then have "0 \<le> real_of_int (roundEven (v / 2 powi ulpExponent v)) * 2 powi ulpExponent v"
    by simp
  with False show ?thesis by (simp add: double_def)
qed simp

lemma double_fixed:
  assumes "double d = d" and "d \<noteq> 0"
  obtains D where "d = of_int D * 2 powi ulpExponent d"
proof -
  from assms have "d = of_int (roundEven (d / 2 powi ulpExponent d)) * 2 powi ulpExponent d"
    by (simp add: double_def)
  then show thesis by (rule that)
qed

lemma double_le_same_ulp:
  assumes "w \<noteq> 0" and "w \<le> d" and "d = of_int D * 2 powi e" and "ulpExponent w \<le> e"
  shows "double w \<le> d"
proof -
  define u where "u = ulpExponent w"
  define n where "n = nat (e - u)"
  from assms(4) have e: "e = u + int n" by (simp add: u_def n_def)
  have "(2::real) powi e = 2 powi u * 2 ^ n"
    unfolding e by (simp add: power_int_add)
  with assms(3) have d: "d = of_int (D * 2 ^ n) * 2 powi u" by simp
  with assms(2) have "w / 2 powi u \<le> of_int (D * 2 ^ n)"
    by (simp add: pos_divide_le_eq)
  then have "roundEven (w / 2 powi u) \<le> D * 2 ^ n" by (rule roundEven_le)
  then have "real_of_int (roundEven (w / 2 powi u)) \<le> of_int (D * 2 ^ n)"
    by (simp only: of_int_le_iff)
  then have "real_of_int (roundEven (w / 2 powi u)) * 2 powi u \<le> of_int (D * 2 ^ n) * 2 powi u"
    by (intro mult_right_mono) simp_all
  with assms(1) d show ?thesis by (simp add: double_def u_def)
qed

lemma double_ge_same_ulp:
  assumes "w \<noteq> 0" and "d \<le> w" and "d = of_int D * 2 powi e" and "ulpExponent w \<le> e"
  shows "d \<le> double w"
proof -
  define u where "u = ulpExponent w"
  define n where "n = nat (e - u)"
  from assms(4) have e: "e = u + int n" by (simp add: u_def n_def)
  have "(2::real) powi e = 2 powi u * 2 ^ n"
    unfolding e by (simp add: power_int_add)
  with assms(3) have d: "d = of_int (D * 2 ^ n) * 2 powi u" by simp
  with assms(2) have "of_int (D * 2 ^ n) \<le> w / 2 powi u"
    by (simp add: pos_le_divide_eq)
  then have "D * 2 ^ n \<le> roundEven (w / 2 powi u)" by (rule roundEven_ge)
  then have "of_int (D * 2 ^ n) \<le> real_of_int (roundEven (w / 2 powi u))"
    by (simp only: of_int_le_iff)
  then have "of_int (D * 2 ^ n) * 2 powi u \<le> real_of_int (roundEven (w / 2 powi u)) * 2 powi u"
    by (intro mult_right_mono) simp_all
  with assms(1) d show ?thesis by (simp add: double_def u_def)
qed

text \<open>A nonzero value of a normal binade rounds to at least the binade's lower end.\<close>

lemma double_abs_lower:
  assumes "w \<noteq> 0" and "- 1074 < ulpExponent w"
  shows "(0 < w \<longrightarrow> 2 powi (ulpExponent w + 52) \<le> double w) \<and>
         (w < 0 \<longrightarrow> double w \<le> - (2 powi (ulpExponent w + 52)))"
proof -
  define u where "u = ulpExponent w"
  have p: "(2::real) powi (u + 52) = of_int (2 ^ 52) * 2 powi u"
    by (simp add: power_int_add)
  have np: "- ((2::real) powi (u + 52)) = of_int (- (2 ^ 52)) * 2 powi u"
    by (simp add: power_int_add)
  from ulpExponent_lower [OF assms] have lo: "2 powi (u + 52) \<le> \<bar>w\<bar>" by (simp add: u_def)
  show ?thesis
  proof (intro conjI impI)
    assume "0 < w"
    with lo have "2 powi (u + 52) \<le> w" by simp
    then show "2 powi (ulpExponent w + 52) \<le> double w"
      unfolding u_def [symmetric]
      using double_ge_same_ulp [OF assms(1) _ p] by (simp add: u_def)
  next
    assume "w < 0"
    with lo have "w \<le> - (2 powi (u + 52))" by simp
    then show "double w \<le> - (2 powi (ulpExponent w + 52))"
      unfolding u_def [symmetric]
      using double_le_same_ulp [OF assms(1) _ np] by (simp add: u_def)
  qed
qed

lemma double_le:
  assumes "w \<le> d" and "double d = d"
  shows "double w \<le> d"
proof (cases "w \<le> 0")
  case True
  show ?thesis
  proof (cases "0 \<le> d")
    case True
    with \<open>w \<le> 0\<close> double_nonpos [of w] show ?thesis by linarith
  next
    case False
    then have d0: "d \<noteq> 0" and w0: "w \<noteq> 0" using assms(1) by auto
    from double_fixed [OF assms(2) d0] obtain D where D: "d = of_int D * 2 powi ulpExponent d" .
    from False assms(1) have "\<bar>d\<bar> \<le> \<bar>w\<bar>" by simp
    with d0 have le: "ulpExponent d \<le> ulpExponent w" by (rule ulpExponent_mono)
    show ?thesis
    proof (cases "ulpExponent d = ulpExponent w")
      case True
      with D show ?thesis by (intro double_le_same_ulp [OF w0 assms(1), of D "ulpExponent d"]) simp_all
    next
      case False
      with le have lt: "ulpExponent d < ulpExponent w" by simp
      with ulpExponent_ge [of d] have "- 1074 < ulpExponent w" by linarith
      with double_abs_lower [OF w0] \<open>w \<le> 0\<close> w0
      have a: "double w \<le> - (2 powi (ulpExponent w + 52))" by simp
      from lt have "ulpExponent d + 53 \<le> ulpExponent w + 52" by simp
      then have "(2::real) powi (ulpExponent d + 53) \<le> 2 powi (ulpExponent w + 52)"
        by (intro power_int_increasing) simp_all
      with ulpExponent_upper [OF d0] have "\<bar>d\<bar> < 2 powi (ulpExponent w + 52)" by linarith
      with a show ?thesis by linarith
    qed
  qed
next
  case False
  then have w0: "w \<noteq> 0" and d0: "d \<noteq> 0" using assms(1) by auto
  from double_fixed [OF assms(2) d0] obtain D where D: "d = of_int D * 2 powi ulpExponent d" .
  from False assms(1) have "\<bar>w\<bar> \<le> \<bar>d\<bar>" by simp
  with w0 have "ulpExponent w \<le> ulpExponent d" by (rule ulpExponent_mono)
  with D show ?thesis by (intro double_le_same_ulp [OF w0 assms(1), of D "ulpExponent d"]) simp_all
qed

lemma double_ge:
  assumes "d \<le> w" and "double d = d"
  shows "d \<le> double w"
proof (cases "0 \<le> w")
  case True
  show ?thesis
  proof (cases "d \<le> 0")
    case True
    with \<open>0 \<le> w\<close> double_nonneg [of w] show ?thesis by linarith
  next
    case False
    then have d0: "d \<noteq> 0" and w0: "w \<noteq> 0" using assms(1) by auto
    from double_fixed [OF assms(2) d0] obtain D where D: "d = of_int D * 2 powi ulpExponent d" .
    from False assms(1) have "\<bar>d\<bar> \<le> \<bar>w\<bar>" by simp
    with d0 have le: "ulpExponent d \<le> ulpExponent w" by (rule ulpExponent_mono)
    show ?thesis
    proof (cases "ulpExponent d = ulpExponent w")
      case True
      with D show ?thesis by (intro double_ge_same_ulp [OF w0 assms(1), of D "ulpExponent d"]) simp_all
    next
      case False
      with le have lt: "ulpExponent d < ulpExponent w" by simp
      with ulpExponent_ge [of d] have "- 1074 < ulpExponent w" by linarith
      with double_abs_lower [OF w0] \<open>0 \<le> w\<close> w0
      have a: "2 powi (ulpExponent w + 52) \<le> double w" by simp
      from lt have "ulpExponent d + 53 \<le> ulpExponent w + 52" by simp
      then have "(2::real) powi (ulpExponent d + 53) \<le> 2 powi (ulpExponent w + 52)"
        by (intro power_int_increasing) simp_all
      with ulpExponent_upper [OF d0] have "\<bar>d\<bar> < 2 powi (ulpExponent w + 52)" by linarith
      with a show ?thesis by linarith
    qed
  qed
next
  case False
  then have w0: "w \<noteq> 0" and d0: "d \<noteq> 0" using assms(1) by auto
  from double_fixed [OF assms(2) d0] obtain D where D: "d = of_int D * 2 powi ulpExponent d" .
  from False assms(1) have "\<bar>w\<bar> \<le> \<bar>d\<bar>" by simp
  with w0 have "ulpExponent w \<le> ulpExponent d" by (rule ulpExponent_mono)
  with D show ?thesis by (intro double_ge_same_ulp [OF w0 assms(1), of D "ulpExponent d"]) simp_all
qed



lemma double_numeral [simp]:
  "(numeral w :: int) < 2 ^ 53 \<Longrightarrow> double (numeral w) = numeral w"
  using double_of_int [of "numeral w"] by simp

lemma double_neg_numeral [simp]:
  "(numeral w :: int) < 2 ^ 53 \<Longrightarrow> double (- numeral w) = - numeral w"
  using double_of_int [of "- numeral w"] by simp

lemma double_one [simp]: "double 1 = 1"
  using double_of_int [of 1] by simp

lemma double_neg_one [simp]: "double (- 1) = - 1"
  using double_of_int [of "- 1"] by simp

lemma double_half [simp]: "double (1 / 2) = 1 / 2"
  using double_dyadic [of 1 1] by simp

lemma fsqrt_less:
  assumes "a \<le> d\<^sup>2" and "0 \<le> d" and "double d = d" and "d < c"
  shows "fsqrt a < c"
proof -
  from assms(1,2) have "sqrt a \<le> d" by (simp add: real_le_lsqrt)
  then have "double (sqrt a) \<le> d" using assms(3) by (rule double_le)
  with assms(4) show ?thesis by (simp add: fsqrt_def)
qed

lemma fsqrt_not_less:
  assumes "c\<^sup>2 \<le> a" and "0 \<le> c" and "double c = c"
  shows "\<not> fsqrt a < c"
proof -
  from assms(1,2) have "c \<le> sqrt a" by (simp add: real_le_rsqrt)
  then have "c \<le> double (sqrt a)" using assms(3) by (rule double_ge)
  then show ?thesis by (simp add: fsqrt_def)
qed

subsection \<open>Projection onto a segment\<close>



















subsection \<open>Point in polygon\<close>










subsection \<open>Release, tool switch and a resize without a handle\<close>

text \<open>
  C6. A release or cancel event ends the drag (\<open>isDragging\<close> is false afterwards) and clears
  the anchor \<open>dragStart\<close>. The selected vertex is cleared when no drag was active as the
  event arrived, and is left as it was when a drag was active.
\<close>

theorem handleEnd_release:
  "step Release s = handleEnd s \<and>
   \<not> isDragging (handleEnd s) \<and>
   dragStart (handleEnd s) = None \<and>
   (\<not> isDragging s \<longrightarrow> selectedHandle (handleEnd s) = None) \<and>
   (isDragging s \<longrightarrow> selectedHandle (handleEnd s) = selectedHandle s)"
  by (simp add: handleEnd_def)

theorem handleEnd_release_witness:
  "isDragging (initialState\<lparr>isDragging := True, selectedHandle := Some 1\<rparr>) \<and>
   selectedHandle (handleEnd (initialState\<lparr>isDragging := True, selectedHandle := Some 1\<rparr>)) = Some 1 \<and>
   \<not> isDragging (initialState\<lparr>selectedHandle := Some 1\<rparr>) \<and>
   selectedHandle (handleEnd (initialState\<lparr>selectedHandle := Some 1\<rparr>)) = None"
  using handleEnd_release [of "initialState\<lparr>isDragging := True, selectedHandle := Some 1\<rparr>"]
        handleEnd_release [of "initialState\<lparr>selectedHandle := Some 1\<rparr>"]
  by (simp add: initialState_def)

text \<open>
  C7. Switching to the pencil clears the selected polygon and the selected vertex;
  switching to hand or select empties the in-progress sequence; every tool switch ends
  the drag and clears the anchor. After a switch to select, a switch back to the pencil
  starts from the empty sequence.
\<close>

theorem handleToolChange_clears:
  "selectedPolygon (handleToolChange Pencil s) = None \<and>
   selectedHandle (handleToolChange Pencil s) = None \<and>
   currentPoints (handleToolChange Hand s) = [] \<and>
   currentPoints (handleToolChange Select s) = [] \<and>
   (\<forall>tool. step (ToolButton tool) s = handleToolChange tool s \<and>
           \<not> isDragging (handleToolChange tool s) \<and>
           dragStart (handleToolChange tool s) = None) \<and>
   currentPoints (handleToolChange Pencil (handleToolChange Select s)) = []"
  by (simp add: handleToolChange_def)

text \<open>
  C10. In a state with an active drag, a selected polygon, an anchor, drag mode resize
  and no selected vertex, a move event changes nothing but the anchor, which becomes the
  event's point: every polygon keeps its points and its color.
\<close>

theorem handleMove_resize_without_handle:
  assumes "isDragging s" and "selectedPolygon s = Some k" and "dragStart s = Some anchor"
    and "dragMode s = Resize" and "selectedHandle s = None"
  shows "handleMove point s = Inr (s\<lparr>dragStart := Some point\<rparr>) \<and>
         step (Drag point) s = s\<lparr>dragStart := Some point\<rparr> \<and>
         polygons (step (Drag point) s) = polygons s \<and>
         dragStart (step (Drag point) s) = Some point"
  using assms by (simp add: handleMove_def)

theorem handleMove_resize_without_handle_witness:
  "polygons (step (Drag \<lparr>x = 7, y = 9\<rparr>)
      (initialState\<lparr>polygons := [\<lparr>points = [\<lparr>x = 0, y = 0\<rparr>, \<lparr>x = 100, y = 0\<rparr>, \<lparr>x = 100, y = 100\<rparr>],
                                    color = ''#3498db''\<rparr>],
                     activeTool := Select, selectedPolygon := Some 0, isDragging := True,
                     dragStart := Some \<lparr>x = 1, y = 1\<rparr>, dragMode := Resize\<rparr>))
     = [\<lparr>points = [\<lparr>x = 0, y = 0\<rparr>, \<lparr>x = 100, y = 0\<rparr>, \<lparr>x = 100, y = 100\<rparr>], color = ''#3498db''\<rparr>] \<and>
   dragStart (step (Drag \<lparr>x = 7, y = 9\<rparr>)
      (initialState\<lparr>polygons := [\<lparr>points = [\<lparr>x = 0, y = 0\<rparr>, \<lparr>x = 100, y = 0\<rparr>, \<lparr>x = 100, y = 100\<rparr>],
                                    color = ''#3498db''\<rparr>],
                     activeTool := Select, selectedPolygon := Some 0, isDragging := True,
                     dragStart := Some \<lparr>x = 1, y = 1\<rparr>, dragMode := Resize\<rparr>))
     = Some \<lparr>x = 7, y = 9\<rparr>"
  using handleMove_resize_without_handle
    [of "initialState\<lparr>polygons := [\<lparr>points = [\<lparr>x = 0, y = 0\<rparr>, \<lparr>x = 100, y = 0\<rparr>, \<lparr>x = 100, y = 100\<rparr>],
                                      color = ''#3498db''\<rparr>],
                       activeTool := Select, selectedPolygon := Some 0, isDragging := True,
                       dragStart := Some \<lparr>x = 1, y = 1\<rparr>, dragMode := Resize\<rparr>"
        0 "\<lparr>x = 1, y = 1\<rparr>" "\<lparr>x = 7, y = 9\<rparr>"]
  by (simp add: initialState_def)

subsection \<open>Reachable states and the pencil tool\<close>

lemma closing_distance: "distance \<lparr>x = 0, y = 0\<rparr> \<lparr>x = 5, y = 5\<rparr> < 20"
proof -
  have "fsqrt 50 < 20" by (rule fsqrt_less [of _ 8]) simp_all
  then show ?thesis by (simp add: distance_def fsub_def fpow2_def fadd_def)
qed

lemma handlePencilInteraction_frame:
  "isDragging (handlePencilInteraction point s) = isDragging s \<and>
   activeTool (handlePencilInteraction point s) = activeTool s \<and>
   dragStart (handlePencilInteraction point s) = dragStart s \<and>
   dragMode (handlePencilInteraction point s) = dragMode s"
  by (simp add: handlePencilInteraction_def split: option.splits)

lemma handleStart_fill_activeTool: "activeTool (handleStart_fill point s) = activeTool s"
  by (simp add: handleStart_fill_def split: option.splits)

lemma handleStart_activeTool: "handleStart point s = Inr s' \<Longrightarrow> activeTool s' = activeTool s"
  by (auto simp: handleStart_def handleStart_fill_activeTool split: if_splits option.splits)

lemma handleMove_frame:
  "handleMove point s = Inr s' \<Longrightarrow>
     activeTool s' = activeTool s \<and> isDragging s' = isDragging s \<and>
     selectedPolygon s' = selectedPolygon s \<and> selectedHandle s' = selectedHandle s \<and>
     dragMode s' = dragMode s \<and> currentPoints s' = currentPoints s"
  by (auto simp: handleMove_def Let_def split: if_splits option.splits bool.splits DragMode.splits)

lemma pencil_step_idle:
  "activeTool (step e s) = Pencil \<Longrightarrow> (activeTool s = Pencil \<longrightarrow> \<not> isDragging s)
     \<Longrightarrow> \<not> isDragging (step e s)"
proof (cases e)
  case (Press point)
  then show "activeTool (step e s) = Pencil \<Longrightarrow> (activeTool s = Pencil \<longrightarrow> \<not> isDragging s)
     \<Longrightarrow> \<not> isDragging (step e s)"
  proof (cases "handleStart point s")
    case (Inl err)
    assume "activeTool (step e s) = Pencil" "activeTool s = Pencil \<longrightarrow> \<not> isDragging s"
    with Inl Press show ?thesis by simp
  next
    case (Inr s')
    assume h: "activeTool (step e s) = Pencil" "activeTool s = Pencil \<longrightarrow> \<not> isDragging s"
    from Inr have "activeTool s' = activeTool s" by (rule handleStart_activeTool)
    with h Inr Press have p: "activeTool s = Pencil" by simp
    with Inr have "s' = s" by (simp add: handleStart_def)
    with h p Inr Press show ?thesis by simp
  qed
next
  case (Drag point)
  then show "activeTool (step e s) = Pencil \<Longrightarrow> (activeTool s = Pencil \<longrightarrow> \<not> isDragging s)
     \<Longrightarrow> \<not> isDragging (step e s)"
    by (cases "handleMove point s") (auto dest: handleMove_frame)
next
  case Release
  then show ?thesis by (simp add: handleEnd_def)
next
  case (Click point)
  then show "activeTool (step e s) = Pencil \<Longrightarrow> (activeTool s = Pencil \<longrightarrow> \<not> isDragging s)
     \<Longrightarrow> \<not> isDragging (step e s)"
    by (auto simp: handleInteraction_def handlePencilInteraction_frame split: if_splits)
next
  case (ToolButton tool)
  then show ?thesis by (simp add: handleToolChange_def)
qed

lemma reachable_pencil_idle: "reachable s \<Longrightarrow> activeTool s = Pencil \<longrightarrow> \<not> isDragging s"
proof (induction rule: reachable.induct)
  case initial
  show ?case by (simp add: initialState_def)
next
  case (after s e)
  then show ?case using pencil_step_idle [of e s] by blast
qed

lemma reachable_fold: "reachable s \<Longrightarrow> reachable (fold step es s)"
  by (induction es arbitrary: s) (auto intro: reachable.after)

lemma handlePencilInteraction_commit:
  assumes "length (currentPoints s) > 2" and "distance (currentPoints s ! 0) point < 20"
  shows "handlePencilInteraction point s =
           s\<lparr>polygons := polygons s @
                 [\<lparr>points = currentPoints s, color = colors ! (length (polygons s) mod 8)\<rparr>],
             currentPoints := []\<rparr>"
  using assms by (simp add: handlePencilInteraction_def colors_def)

lemma pencil_first_three:
  "fold step [Click \<lparr>x = 0, y = 0\<rparr>, Click \<lparr>x = 100, y = 0\<rparr>, Click \<lparr>x = 100, y = 100\<rparr>] initialState
     = initialState\<lparr>currentPoints := [\<lparr>x = 0, y = 0\<rparr>, \<lparr>x = 100, y = 0\<rparr>, \<lparr>x = 100, y = 100\<rparr>]\<rparr>"
  by (simp add: initialState_def handleInteraction_def handlePencilInteraction_def)

text \<open>
  C2. In a reachable state with the pencil active, a click while the in-progress
  sequence has more than two points and the point is less than 20 from its first point
  appends one polygon to the store: its points are the in-progress sequence (without the
  click point), its color is \<open>colors[n mod 8]\<close> for the polygon count \<open>n\<close> before the
  click; the in-progress sequence becomes empty. From the initial state, clicks at
  (0,0), (100,0), (100,100) and (5,5) leave exactly one polygon, with the first three
  points, and an empty in-progress sequence.
\<close>

theorem pencil_commit_closes_shape:
  "(reachable s \<and> activeTool s = Pencil \<and> length (currentPoints s) > 2 \<and>
    distance (currentPoints s ! 0) point < 20 \<longrightarrow>
      step (Click point) s =
        s\<lparr>polygons := polygons s @
              [\<lparr>points = currentPoints s, color = colors ! (length (polygons s) mod 8)\<rparr>],
          currentPoints := []\<rparr>) \<and>
   fold step [Click \<lparr>x = 0, y = 0\<rparr>, Click \<lparr>x = 100, y = 0\<rparr>, Click \<lparr>x = 100, y = 100\<rparr>,
              Click \<lparr>x = 5, y = 5\<rparr>] initialState =
     initialState\<lparr>polygons := [\<lparr>points = [\<lparr>x = 0, y = 0\<rparr>, \<lparr>x = 100, y = 0\<rparr>, \<lparr>x = 100, y = 100\<rparr>],
                                  color = ''#3498db''\<rparr>],
                   currentPoints := []\<rparr>"
proof (intro conjI impI)
  assume a: "reachable s \<and> activeTool s = Pencil \<and> length (currentPoints s) > 2 \<and>
    distance (currentPoints s ! 0) point < 20"
  then have "\<not> isDragging s" using reachable_pencil_idle by blast
  with a show "step (Click point) s =
        s\<lparr>polygons := polygons s @
              [\<lparr>points = currentPoints s, color = colors ! (length (polygons s) mod 8)\<rparr>],
          currentPoints := []\<rparr>"
    by (simp add: handleInteraction_def handlePencilInteraction_commit)
next
  show "fold step [Click \<lparr>x = 0, y = 0\<rparr>, Click \<lparr>x = 100, y = 0\<rparr>, Click \<lparr>x = 100, y = 100\<rparr>,
              Click \<lparr>x = 5, y = 5\<rparr>] initialState =
     initialState\<lparr>polygons := [\<lparr>points = [\<lparr>x = 0, y = 0\<rparr>, \<lparr>x = 100, y = 0\<rparr>, \<lparr>x = 100, y = 100\<rparr>],
                                  color = ''#3498db''\<rparr>],
                   currentPoints := []\<rparr>"
    by (simp add: initialState_def handleInteraction_def handlePencilInteraction_def
          closing_distance colors_def)
qed

theorem pencil_commit_closes_shape_witness:
  "reachable (fold step [Click \<lparr>x = 0, y = 0\<rparr>, Click \<lparr>x = 100, y = 0\<rparr>, Click \<lparr>x = 100, y = 100\<rparr>]
                initialState) \<and>
   activeTool (fold step [Click \<lparr>x = 0, y = 0\<rparr>, Click \<lparr>x = 100, y = 0\<rparr>, Click \<lparr>x = 100, y = 100\<rparr>]
                 initialState) = Pencil \<and>
   distance (currentPoints (fold step [Click \<lparr>x = 0, y = 0\<rparr>, Click \<lparr>x = 100, y = 0\<rparr>,
                                        Click \<lparr>x = 100, y = 100\<rparr>] initialState) ! 0)
            \<lparr>x = 5, y = 5\<rparr> < 20 \<and>
   polygons (step (Click \<lparr>x = 5, y = 5\<rparr>)
      (fold step [Click \<lparr>x = 0, y = 0\<rparr>, Click \<lparr>x = 100, y = 0\<rparr>, Click \<lparr>x = 100, y = 100\<rparr>]
         initialState)) =
     [\<lparr>points = [\<lparr>x = 0, y = 0\<rparr>, \<lparr>x = 100, y = 0\<rparr>, \<lparr>x = 100, y = 100\<rparr>], color = ''#3498db''\<rparr>]"
proof -
  have r: "reachable (fold step [Click \<lparr>x = 0, y = 0\<rparr>, Click \<lparr>x = 100, y = 0\<rparr>,
                                 Click \<lparr>x = 100, y = 100\<rparr>] initialState)"
    by (rule reachable_fold) (rule reachable.initial)
  have d: "distance \<lparr>x = 0, y = 0\<rparr> \<lparr>x = 5, y = 5\<rparr> < 20"
    by (rule closing_distance)
  from r d pencil_commit_closes_shape
         [of "initialState\<lparr>currentPoints := [\<lparr>x = 0, y = 0\<rparr>, \<lparr>x = 100, y = 0\<rparr>, \<lparr>x = 100, y = 100\<rparr>]\<rparr>"
             "\<lparr>x = 5, y = 5\<rparr>"]
  show ?thesis
    unfolding pencil_first_three by (simp add: initialState_def colors_def)
qed

subsection \<open>Every polygon of the store has three points\<close>

lemma handlePencilInteraction_loop_index:
  "handlePencilInteraction_loop point polys n = Some (i, e) \<Longrightarrow> i < n"
  by (induction n) (auto split: option.splits)

lemma list_update_min3:
  assumes "\<forall>poly\<in>set polys. 3 \<le> length (points poly)" and "3 \<le> length (points v)"
  shows "\<forall>poly\<in>set (polys[i := v]). 3 \<le> length (points poly)"
  using assms set_update_subset_insert [of polys i v] by auto

lemma handlePencilInteraction_min3:
  assumes "\<forall>poly\<in>set (polygons s). 3 \<le> length (points poly)"
  shows "\<forall>poly\<in>set (polygons (handlePencilInteraction point s)). 3 \<le> length (points poly)"
proof (cases "length (currentPoints s) > 2 \<and> distance (currentPoints s ! 0) point < 20")
  case True
  with assms show ?thesis by (auto simp: handlePencilInteraction_def)
next
  case False
  show ?thesis
  proof (cases "if length (currentPoints s) = 0
               then handlePencilInteraction_loop point (polygons s) (length (polygons s))
               else None")
    case None
    with False assms show ?thesis by (simp add: handlePencilInteraction_def)
  next
    case (Some r)
    obtain i edgePoint edgeIndex where r: "r = (i, edgePoint, edgeIndex)" by (cases r)
    from Some r have "handlePencilInteraction_loop point (polygons s) (length (polygons s))
                        = Some (i, edgePoint, edgeIndex)"
      by (simp split: if_splits)
    then have "i < length (polygons s)" by (rule handlePencilInteraction_loop_index)
    with assms have "3 \<le> length (points (polygons s ! i))" by simp
    then have "3 \<le> length (points ((polygons s ! i)
                 \<lparr>points := spliceInsert edgeIndex edgePoint (points (polygons s ! i))\<rparr>))"
      by (simp add: spliceInsert_def)
    with assms have "\<forall>poly\<in>set ((polygons s)[i := (polygons s ! i)
                 \<lparr>points := spliceInsert edgeIndex edgePoint (points (polygons s ! i))\<rparr>]).
                 3 \<le> length (points poly)"
      by (rule list_update_min3)
    moreover from False Some r have "polygons (handlePencilInteraction point s) =
        (polygons s)[i := (polygons s ! i)
                 \<lparr>points := spliceInsert edgeIndex edgePoint (points (polygons s ! i))\<rparr>]"
      by (auto simp: handlePencilInteraction_def)
    ultimately show ?thesis by simp
  qed
qed

lemma handleStart_fill_polygons: "polygons (handleStart_fill point s) = polygons s"
  by (simp add: handleStart_fill_def split: option.splits)

lemma handleStart_polygons: "handleStart point s = Inr s' \<Longrightarrow> polygons s' = polygons s"
  by (auto simp: handleStart_def handleStart_fill_polygons split: if_splits option.splits)

lemma handleMove_min3:
  assumes "handleMove point s = Inr s'"
    and "\<forall>poly\<in>set (polygons s). 3 \<le> length (points poly)"
  shows "\<forall>poly\<in>set (polygons s'). 3 \<le> length (points poly)"
  using assms
  by (auto simp: handleMove_def Let_def all_set_conv_all_nth nth_list_update
           split: if_splits option.splits bool.splits DragMode.splits)

lemma step_min3:
  assumes "\<forall>poly\<in>set (polygons s). 3 \<le> length (points poly)"
  shows "\<forall>poly\<in>set (polygons (step e s)). 3 \<le> length (points poly)"
proof (cases e)
  case (Press point)
  with assms show ?thesis
    by (cases "handleStart point s") (auto dest: handleStart_polygons)
next
  case (Drag point)
  with assms show ?thesis
    by (cases "handleMove point s") (auto dest: handleMove_min3)
next
  case Release
  with assms show ?thesis by (simp add: handleEnd_def)
next
  case (Click point)
  with assms handlePencilInteraction_min3 [OF assms, of point] show ?thesis
    by (simp add: handleInteraction_def)
next
  case (ToolButton tool)
  with assms show ?thesis by (simp add: handleToolChange_def)
qed

lemma reachable_min3:
  "reachable s \<Longrightarrow> \<forall>poly\<in>set (polygons s). 3 \<le> length (points poly)"
proof (induction rule: reachable.induct)
  case initial
  show ?case by (simp add: initialState_def)
next
  case (after s e)
  from after.IH show ?case by (rule step_min3)
qed

lemma handleMove_point_counts:
  assumes "handleMove point s = Inr s'"
  shows "map (\<lambda>poly. length (points poly)) (polygons s') =
         map (\<lambda>poly. length (points poly)) (polygons s)"
  using assms
  by (auto simp: handleMove_def Let_def map_update list_update_same_conv
           split: if_splits option.splits bool.splits DragMode.splits)

lemma handlePencilInteraction_polygons:
  "polygons (handlePencilInteraction point s) = polygons s \<or>
   (2 < length (currentPoints s) \<and>
    polygons (handlePencilInteraction point s) =
      polygons s @ [\<lparr>points = currentPoints s,
                       color = colors ! (length (polygons s) mod length colors)\<rparr>]) \<or>
   (\<exists>i<length (polygons s). \<exists>k q.
      polygons (handlePencilInteraction point s) =
        (polygons s)[i := (polygons s ! i)
           \<lparr>points := take k (points (polygons s ! i)) @ q # drop k (points (polygons s ! i))\<rparr>])"
proof (cases "length (currentPoints s) > 2 \<and> distance (currentPoints s ! 0) point < 20")
  case True
  then show ?thesis by (simp add: handlePencilInteraction_def)
next
  case False
  show ?thesis
  proof (cases "if length (currentPoints s) = 0
               then handlePencilInteraction_loop point (polygons s) (length (polygons s))
               else None")
    case None
    with False have "polygons (handlePencilInteraction point s) = polygons s"
      by (auto simp: handlePencilInteraction_def)
    then show ?thesis by simp
  next
    case (Some r)
    obtain i q k where r: "r = (i, q, k)" by (cases r)
    from Some r have "handlePencilInteraction_loop point (polygons s) (length (polygons s))
                        = Some (i, q, k)"
      by (simp split: if_splits)
    then have i: "i < length (polygons s)" by (rule handlePencilInteraction_loop_index)
    from False Some r have "polygons (handlePencilInteraction point s) =
        (polygons s)[i := (polygons s ! i)
           \<lparr>points := take k (points (polygons s ! i)) @ q # drop k (points (polygons s ! i))\<rparr>]"
      by (auto simp: handlePencilInteraction_def spliceInsert_def)
    with i show ?thesis by blast
  qed
qed

text \<open>
  C9. In every reachable state every polygon of the store has at least three points. A
  click changes the number of polygons only by committing an in-progress sequence of more
  than two points as a new last polygon; a click that keeps the number of polygons either
  leaves the store as it is or inserts one point into the point sequence of one existing
  polygon, which keeps its other points and their order; a move event, which translates a
  polygon or moves one vertex, keeps the number of points of every polygon.
\<close>

theorem committed_polygons_min3:
  "(reachable s \<longrightarrow> (\<forall>poly\<in>set (polygons s). 3 \<le> length (points poly))) \<and>
   (length (polygons (step (Click point) s)) \<noteq> length (polygons s) \<longrightarrow>
      2 < length (currentPoints s) \<and>
      polygons (step (Click point) s) =
        polygons s @ [\<lparr>points = currentPoints s,
                         color = colors ! (length (polygons s) mod length colors)\<rparr>]) \<and>
   (length (polygons (step (Click point) s)) = length (polygons s) \<longrightarrow>
      polygons (step (Click point) s) = polygons s \<or>
      (\<exists>i<length (polygons s). \<exists>k q.
         polygons (step (Click point) s) =
           (polygons s)[i := (polygons s ! i)
              \<lparr>points := take k (points (polygons s ! i)) @ q #
                           drop k (points (polygons s ! i))\<rparr>])) \<and>
   map (\<lambda>poly. length (points poly)) (polygons (step (Drag point) s)) =
     map (\<lambda>poly. length (points poly)) (polygons s)"
proof (intro conjI impI)
  assume "reachable s"
  then show "\<forall>poly\<in>set (polygons s). 3 \<le> length (points poly)"
    by (rule reachable_min3)
next
  assume "length (polygons (step (Click point) s)) \<noteq> length (polygons s)"
  then show "2 < length (currentPoints s)"
    by (auto simp: handleInteraction_def handlePencilInteraction_def
             split: if_splits option.splits)
next
  assume "length (polygons (step (Click point) s)) \<noteq> length (polygons s)"
  then show "polygons (step (Click point) s) =
        polygons s @ [\<lparr>points = currentPoints s,
                         color = colors ! (length (polygons s) mod length colors)\<rparr>]"
    by (auto simp: handleInteraction_def handlePencilInteraction_def
             split: if_splits option.splits)
next
  assume same: "length (polygons (step (Click point) s)) = length (polygons s)"
  show "polygons (step (Click point) s) = polygons s \<or>
      (\<exists>i<length (polygons s). \<exists>k q.
         polygons (step (Click point) s) =
           (polygons s)[i := (polygons s ! i)
              \<lparr>points := take k (points (polygons s ! i)) @ q #
                           drop k (points (polygons s ! i))\<rparr>])"
  proof (cases "isDragging s \<or> activeTool s \<noteq> Pencil")
    case True
    then show ?thesis by (auto simp: handleInteraction_def)
  next
    case False
    then have eq: "step (Click point) s = handlePencilInteraction point s"
      by (simp add: handleInteraction_def)
    from same have "polygons (handlePencilInteraction point s) \<noteq>
      polygons s @ [\<lparr>points = currentPoints s,
                       color = colors ! (length (polygons s) mod length colors)\<rparr>]"
      unfolding eq by (metis length_append_singleton n_not_Suc_n)
    with handlePencilInteraction_polygons [of point s] show ?thesis
      unfolding eq by blast
  qed
next
  show "map (\<lambda>poly. length (points poly)) (polygons (step (Drag point) s)) =
     map (\<lambda>poly. length (points poly)) (polygons s)"
    by (cases "handleMove point s") (auto dest: handleMove_point_counts)
qed

subsection \<open>The closest edge\<close>

lemma closestSoFar_skip:
  assumes "closestSoFar point pts i acc"
    and "\<forall>q. edgeProjection point pts i = Some q \<longrightarrow>
           \<not> distance point q < EDGE_DETECTION_THRESHOLD"
  shows "closestSoFar point pts (Suc i) acc"
proof -
  obtain cp cd ii where acc: "acc = (cp, cd, ii)" by (cases acc)
  show ?thesis
  proof (cases cp)
    case None
    with assms acc show ?thesis
      by (auto simp: closestSoFar_def less_Suc_eq)
  next
    case (Some c)
    with assms(1) acc obtain k where k: "k < i" "ii = int k + 1"
      "edgeProjection point pts k = Some c" "distance point c < EDGE_DETECTION_THRESHOLD"
      "\<forall>j<i. \<forall>q. edgeProjection point pts j = Some q \<and>
                          distance point q < EDGE_DETECTION_THRESHOLD \<longrightarrow>
                          distance point c \<le> distance point q"
      "\<forall>j<k. \<forall>q. edgeProjection point pts j = Some q \<and>
                          distance point q < EDGE_DETECTION_THRESHOLD \<longrightarrow>
                          distance point c < distance point q"
      and cd: "cd = Some (distance point c)"
      by (auto simp: closestSoFar_def)
    from k(5) assms(2) have "\<forall>j<Suc i. \<forall>q. edgeProjection point pts j = Some q \<and>
                          distance point q < EDGE_DETECTION_THRESHOLD \<longrightarrow>
                          distance point c \<le> distance point q"
      by (auto simp: less_Suc_eq)
    with k cd Some acc show ?thesis
      unfolding closestSoFar_def by (auto intro!: exI [of _ k])
  qed
qed

lemma closestSoFar_keep:
  assumes "closestSoFar point pts i (Some c, Some d, ii)"
    and "edgeProjection point pts i = Some q"
    and "\<not> distance point q < d"
  shows "closestSoFar point pts (Suc i) (Some c, Some d, ii)"
proof -
  from assms(1) obtain k where k: "k < i" "ii = int k + 1"
      "edgeProjection point pts k = Some c" "distance point c < EDGE_DETECTION_THRESHOLD"
      "\<forall>j<i. \<forall>q. edgeProjection point pts j = Some q \<and>
                          distance point q < EDGE_DETECTION_THRESHOLD \<longrightarrow>
                          distance point c \<le> distance point q"
      "\<forall>j<k. \<forall>q. edgeProjection point pts j = Some q \<and>
                          distance point q < EDGE_DETECTION_THRESHOLD \<longrightarrow>
                          distance point c < distance point q"
      and d: "d = distance point c"
    by (auto simp: closestSoFar_def)
  from k(5) assms(2,3) d have "\<forall>j<Suc i. \<forall>q. edgeProjection point pts j = Some q \<and>
                          distance point q < EDGE_DETECTION_THRESHOLD \<longrightarrow>
                          distance point c \<le> distance point q"
    by (auto simp: less_Suc_eq)
  with k d show ?thesis
    unfolding closestSoFar_def by (auto intro!: exI [of _ k])
qed

lemma closestSoFar_take:
  assumes "closestSoFar point pts i (cp, cd, ii)"
    and "edgeProjection point pts i = Some q"
    and "distance point q < EDGE_DETECTION_THRESHOLD"
    and "case cd of None \<Rightarrow> True | Some c \<Rightarrow> distance point q < c"
  shows "closestSoFar point pts (Suc i) (Some q, Some (distance point q), int i + 1)"
proof -
  have older: "\<forall>j<i. \<forall>q'. edgeProjection point pts j = Some q' \<and>
                  distance point q' < EDGE_DETECTION_THRESHOLD \<longrightarrow>
                  distance point q < distance point q'"
  proof (cases cp)
    case None
    with assms(1) show ?thesis by (auto simp: closestSoFar_def)
  next
    case (Some c)
    with assms(1) have cd: "cd = Some (distance point c)"
      and least: "\<forall>j<i. \<forall>q'. edgeProjection point pts j = Some q' \<and>
                  distance point q' < EDGE_DETECTION_THRESHOLD \<longrightarrow>
                  distance point c \<le> distance point q'"
      by (auto simp: closestSoFar_def)
    from cd assms(4) have "distance point q < distance point c" by simp
    with least show ?thesis by fastforce
  qed
  then have "\<forall>j<Suc i. \<forall>q'. edgeProjection point pts j = Some q' \<and>
                  distance point q' < EDGE_DETECTION_THRESHOLD \<longrightarrow>
                  distance point q \<le> distance point q'"
    using assms(2) by (auto simp: less_Suc_eq)
  with older assms(2,3) show ?thesis
    unfolding closestSoFar_def by (auto intro!: exI [of _ i])
qed

lemma findClosestEdgePoint_loop_inv:
  "length pts - i = m \<Longrightarrow> i \<le> length pts \<Longrightarrow> closestSoFar point pts i acc \<Longrightarrow>
   closestSoFar point pts (length pts) (findClosestEdgePoint_loop point pts i acc)"
proof (induction m arbitrary: i acc)
  case 0
  obtain cp cd ii where acc: "acc = (cp, cd, ii)" by (cases acc)
  from 0 have i: "i = length pts" by simp
  have "findClosestEdgePoint_loop point pts i acc = acc"
    unfolding acc i by (subst findClosestEdgePoint_loop.simps) simp
  with 0 i show ?case by simp
next
  case (Suc m)
  obtain cp cd ii where acc: "acc = (cp, cd, ii)" by (cases acc)
  from Suc.prems have lt: "i < length pts" by simp
  from Suc.prems have rest: "closestSoFar point pts (Suc i) acc' \<Longrightarrow>
      closestSoFar point pts (length pts) (findClosestEdgePoint_loop point pts (i + 1) acc')"
    for acc'
    using Suc.IH [of "Suc i" acc'] by simp
  show ?case
  proof (cases "edgeProjection point pts i")
    case None
    then have "findClosestEdgePoint_loop point pts i acc =
                 findClosestEdgePoint_loop point pts (i + 1) acc"
      unfolding acc using lt
      by (subst findClosestEdgePoint_loop.simps) (simp add: edgeProjection_def Let_def)
    moreover from None Suc.prems(3) have "closestSoFar point pts (Suc i) acc"
      by (intro closestSoFar_skip) auto
    ultimately show ?thesis using rest by simp
  next
    case (Some q)
    show ?thesis
    proof (cases "distance point q < EDGE_DETECTION_THRESHOLD \<and>
                  (case cd of None \<Rightarrow> True | Some c \<Rightarrow> distance point q < c)")
      case True
      with Some have "findClosestEdgePoint_loop point pts i acc =
          findClosestEdgePoint_loop point pts (i + 1) (Some q, Some (distance point q), int i + 1)"
        unfolding acc using lt
        by (subst findClosestEdgePoint_loop.simps) (simp add: edgeProjection_def Let_def)
      moreover from True Some Suc.prems(3) acc
      have "closestSoFar point pts (Suc i) (Some q, Some (distance point q), int i + 1)"
        by (intro closestSoFar_take [of point pts i cp cd ii]) auto
      ultimately show ?thesis using rest by simp
    next
      case False
      with Some have eq: "findClosestEdgePoint_loop point pts i acc =
          findClosestEdgePoint_loop point pts (i + 1) acc"
        unfolding acc using lt
        by (subst findClosestEdgePoint_loop.simps) (auto simp: edgeProjection_def Let_def)
      have "closestSoFar point pts (Suc i) acc"
      proof (cases "distance point q < EDGE_DETECTION_THRESHOLD")
        case False
        with Some Suc.prems(3) show ?thesis by (intro closestSoFar_skip) auto
      next
        case True
        with False obtain d where d: "cd = Some d" "\<not> distance point q < d"
          by (cases cd) auto
        with Suc.prems(3) acc obtain c where "cp = Some c"
          by (cases cp) (auto simp: closestSoFar_def)
        with d Some Suc.prems(3) acc show ?thesis
          by (auto intro: closestSoFar_keep)
      qed
      with eq show ?thesis using rest by simp
    qed
  qed
qed

text \<open>
  C3. \<open>findClosestEdgePoint\<close>, with \<open>EDGE_DETECTION_THRESHOLD = 10\<close>, returns none exactly
  when no edge has a projection of the point at a distance below the threshold. Otherwise
  it returns the projection onto an edge \<open>i\<close> together with the index \<open>i + 1\<close>; that
  projection is below the threshold, no edge with a projection below the threshold is
  closer, and every such edge of lower index is strictly farther (the first of equally
  close edges wins).
\<close>

theorem findClosestEdgePoint_closest_edge:
  "EDGE_DETECTION_THRESHOLD = 10 \<and>
   (findClosestEdgePoint point pts = None \<longleftrightarrow>
      (\<forall>i<length pts. \<forall>q. edgeProjection point pts i = Some q \<longrightarrow>
          \<not> distance point q < EDGE_DETECTION_THRESHOLD)) \<and>
   (\<forall>c k. findClosestEdgePoint point pts = Some (c, k) \<longrightarrow>
      (\<exists>i<length pts. k = i + 1 \<and>
         edgeProjection point pts i = Some c \<and>
         distance point c < EDGE_DETECTION_THRESHOLD \<and>
         (\<forall>j<length pts. \<forall>q. edgeProjection point pts j = Some q \<and>
             distance point q < EDGE_DETECTION_THRESHOLD \<longrightarrow>
             distance point c \<le> distance point q) \<and>
         (\<forall>j<i. \<forall>q. edgeProjection point pts j = Some q \<and>
             distance point q < EDGE_DETECTION_THRESHOLD \<longrightarrow>
             distance point c < distance point q)))"
proof -
  obtain cp cd ii where r: "findClosestEdgePoint_loop point pts 0 (None, None, - 1) = (cp, cd, ii)"
    by (cases "findClosestEdgePoint_loop point pts 0 (None, None, - 1)")
  have "closestSoFar point pts 0 (None, None, - 1)"
    by (simp add: closestSoFar_def)
  then have inv: "closestSoFar point pts (length pts) (cp, cd, ii)"
    using findClosestEdgePoint_loop_inv [of pts 0 "length pts" point "(None, None, - 1)"] r
    by simp
  show ?thesis
  proof (cases cp)
    case None
    with inv r show ?thesis
      by (auto simp: findClosestEdgePoint_def closestSoFar_def EDGE_DETECTION_THRESHOLD_def)
  next
    case (Some c)
    with inv obtain i where i: "i < length pts" "ii = int i + 1"
      "edgeProjection point pts i = Some c" "distance point c < EDGE_DETECTION_THRESHOLD"
      "\<forall>j<length pts. \<forall>q. edgeProjection point pts j = Some q \<and>
             distance point q < EDGE_DETECTION_THRESHOLD \<longrightarrow>
             distance point c \<le> distance point q"
      "\<forall>j<i. \<forall>q. edgeProjection point pts j = Some q \<and>
             distance point q < EDGE_DETECTION_THRESHOLD \<longrightarrow>
             distance point c < distance point q"
      by (auto simp: closestSoFar_def)
    from i(2) have k: "nat ii = i + 1" by simp
    from Some r k have res: "findClosestEdgePoint point pts = Some (c, i + 1)"
      by (simp add: findClosestEdgePoint_def)
    have "\<exists>i'<length pts. i + 1 = i' + 1 \<and>
         edgeProjection point pts i' = Some c \<and>
         distance point c < EDGE_DETECTION_THRESHOLD \<and>
         (\<forall>j<length pts. \<forall>q. edgeProjection point pts j = Some q \<and>
             distance point q < EDGE_DETECTION_THRESHOLD \<longrightarrow>
             distance point c \<le> distance point q) \<and>
         (\<forall>j<i'. \<forall>q. edgeProjection point pts j = Some q \<and>
             distance point q < EDGE_DETECTION_THRESHOLD \<longrightarrow>
             distance point c < distance point q)"
      using i by (intro exI [of _ i]) simp
    moreover have "\<not> (\<forall>i<length pts. \<forall>q. edgeProjection point pts i = Some q \<longrightarrow>
          \<not> distance point q < EDGE_DETECTION_THRESHOLD)"
      using i(1,3,4) by blast
    ultimately show ?thesis
      unfolding res by (simp add: EDGE_DETECTION_THRESHOLD_def)
  qed
qed

subsection \<open>Example states\<close>

lemma fsqrt_threshold:
  "a \<le> 64 \<Longrightarrow> fsqrt a < 20"
  "400 \<le> a \<Longrightarrow> \<not> fsqrt a < 20"
  "a \<le> 81 \<Longrightarrow> fsqrt a < 10"
  "100 \<le> a \<Longrightarrow> \<not> fsqrt a < 10"
  "a \<le> 49 \<Longrightarrow> fsqrt a < 8"
  "64 \<le> a \<Longrightarrow> \<not> fsqrt a < 8"
proof -
  show "a \<le> 64 \<Longrightarrow> fsqrt a < 20" by (rule fsqrt_less [of _ 8]) simp_all
  show "400 \<le> a \<Longrightarrow> \<not> fsqrt a < 20" by (rule fsqrt_not_less) simp_all
  show "a \<le> 81 \<Longrightarrow> fsqrt a < 10" by (rule fsqrt_less [of _ 9]) simp_all
  show "100 \<le> a \<Longrightarrow> \<not> fsqrt a < 10" by (rule fsqrt_not_less) simp_all
  show "a \<le> 49 \<Longrightarrow> fsqrt a < 8" by (rule fsqrt_less [of _ 7]) simp_all
  show "64 \<le> a \<Longrightarrow> \<not> fsqrt a < 8" by (rule fsqrt_not_less) simp_all
qed

lemmas thresholds = EDGE_DETECTION_THRESHOLD_def HANDLE_SIZE_def fsqrt_threshold

lemma fsqrt_10000: "fsqrt 10000 = 100"
proof -
  have "sqrt 10000 = 100" by (rule real_sqrt_unique) simp_all
  then show ?thesis by (simp add: fsqrt_def)
qed

lemma fsqrt_16384: "fsqrt 16384 = 128"
proof -
  have "sqrt 16384 = 128" by (rule real_sqrt_unique) simp_all
  then show ?thesis by (simp add: fsqrt_def)
qed

lemmas rounded_ops = fadd_def fsub_def fmul_def fdiv_def fpow2_def

lemma square_drawn:
  "fold step squareClicks initialState = initialState\<lparr>polygons := [square]\<rparr>"
  by (simp add: squareClicks_def square_def initialState_def handleInteraction_def
        handlePencilInteraction_def distance_def rounded_ops thresholds colors_def)

lemma square_no_edge_near: "findClosestEdgePoint \<lparr>x = 200, y = 200\<rparr> (points square) = None"
  by (simp add: findClosestEdgePoint_def findClosestEdgePoint_loop.simps square_def
        projectPointOnLine_def Let_def rounded_ops fsqrt_10000)

lemma triangle_drawn:
  "fold step triangleClicks (initialState\<lparr>polygons := [square]\<rparr>) =
     initialState\<lparr>polygons := [square, triangle]\<rparr>"
  by (simp add: triangleClicks_def triangle_def initialState_def handleInteraction_def
        handlePencilInteraction_def distance_def rounded_ops thresholds colors_def
        square_no_edge_near)

lemma square_edge_on:
  "findClosestEdgePoint \<lparr>x = 50, y = 0\<rparr> (points square) = Some (\<lparr>x = 50, y = 0\<rparr>, 1)"
  by (simp add: findClosestEdgePoint_def findClosestEdgePoint_loop.simps square_def
        projectPointOnLine_def Let_def distance_def rounded_ops fsqrt_10000 thresholds)

lemma big_square_edge_near:
  "findClosestEdgePoint \<lparr>x = 64, y = 3\<rparr>
     [\<lparr>x = 0, y = 0\<rparr>, \<lparr>x = 128, y = 0\<rparr>, \<lparr>x = 128, y = 128\<rparr>, \<lparr>x = 0, y = 128\<rparr>] =
   Some (\<lparr>x = 64, y = 0\<rparr>, 1)"
proof -
  have a: "double (3 / 128) = 3 / 128" using double_dyadic [of 3 7] by simp
  have b: "double (125 / 128) = 125 / 128" using double_dyadic [of 125 7] by simp
  show ?thesis
    by (simp add: findClosestEdgePoint_def findClosestEdgePoint_loop.simps
        projectPointOnLine_def Let_def distance_def rounded_ops fsqrt_16384 thresholds a b)
qed

lemma in_square: "isPointInPolygon \<lparr>x = 50, y = 50\<rparr> (points square)"
  by (simp add: isPointInPolygon_def isPointInPolygon_loop.simps square_def Let_def rounded_ops)

lemma not_in_triangle_50: "\<not> isPointInPolygon \<lparr>x = 50, y = 50\<rparr> (points triangle)"
  by (simp add: isPointInPolygon_def isPointInPolygon_loop.simps triangle_def Let_def rounded_ops)

lemma in_triangle: "isPointInPolygon \<lparr>x = 290, y = 250\<rparr> (points triangle)"
  by (simp add: isPointInPolygon_def isPointInPolygon_loop.simps triangle_def Let_def rounded_ops)

lemma not_in_square_far: "\<not> isPointInPolygon \<lparr>x = 500, y = 500\<rparr> (points square)"
  by (simp add: isPointInPolygon_def isPointInPolygon_loop.simps square_def Let_def rounded_ops)

lemma handle_3: "handleStart_handleLoop \<lparr>x = 0, y = 100\<rparr> (points square) 0 = Some 3"
  by (simp add: handleStart_handleLoop.simps square_def isPointNearHandle_def distance_def
        rounded_ops thresholds)

lemma handle_none: "handleStart_handleLoop \<lparr>x = 290, y = 250\<rparr> (points square) 0 = None"
  by (simp add: handleStart_handleLoop.simps square_def isPointNearHandle_def distance_def
        rounded_ops thresholds)

lemma both_drawn:
  "fold step (squareClicks @ triangleClicks) initialState =
     initialState\<lparr>polygons := [square, triangle]\<rparr>"
  by (simp add: square_drawn triangle_drawn)

lemma square_selected:
  "fold step [ToolButton Select, Press \<lparr>x = 50, y = 50\<rparr>, Release]
     (initialState\<lparr>polygons := [square, triangle]\<rparr>) =
   initialState\<lparr>polygons := [square, triangle], activeTool := Select, selectedPolygon := Some 0\<rparr>"
  by (simp add: initialState_def handleToolChange_def handleStart_def handleStart_fill_def
        handleEnd_def in_square not_in_triangle_50)

lemma handle_selected:
  "fold step [Press \<lparr>x = 0, y = 100\<rparr>, Release]
     (initialState\<lparr>polygons := [square, triangle], activeTool := Select,
                    selectedPolygon := Some 0\<rparr>) =
   initialState\<lparr>polygons := [square, triangle], activeTool := Select, selectedPolygon := Some 0,
                 selectedHandle := Some 3\<rparr>"
  by (simp add: initialState_def handleStart_def handleEnd_def handle_3)

lemma triangle_pressed:
  "step (Press \<lparr>x = 290, y = 250\<rparr>)
     (initialState\<lparr>polygons := [square, triangle], activeTool := Select, selectedPolygon := Some 0,
                    selectedHandle := Some 3\<rparr>) =
   initialState\<lparr>polygons := [square, triangle], activeTool := Select, selectedPolygon := Some 1,
                 selectedHandle := Some 3, isDragging := True,
                 dragStart := Some \<lparr>x = 290, y = 250\<rparr>\<rparr>"
  by (simp add: initialState_def handleStart_def handleStart_fill_def handle_none in_triangle)

lemma staleHandleTrace_state:
  "fold step staleHandleTrace initialState =
     initialState\<lparr>polygons := [square, triangle], activeTool := Select, selectedPolygon := Some 1,
                   selectedHandle := Some 3, isDragging := True,
                   dragStart := Some \<lparr>x = 290, y = 250\<rparr>\<rparr>"
proof -
  have "fold step staleHandleTrace initialState =
      step (Press \<lparr>x = 290, y = 250\<rparr>)
        (fold step [Press \<lparr>x = 0, y = 100\<rparr>, Release]
          (fold step [ToolButton Select, Press \<lparr>x = 50, y = 50\<rparr>, Release]
            (fold step (squareClicks @ triangleClicks) initialState)))"
    by (simp add: staleHandleTrace_def)
  then show ?thesis
    by (simp only: both_drawn square_selected handle_selected triangle_pressed)
qed

lemma dragStarted_state:
  "fold step dragStarted initialState =
     initialState\<lparr>polygons := [square], activeTool := Hand, selectedPolygon := Some 0,
                   isDragging := True, dragStart := Some \<lparr>x = 50, y = 50\<rparr>\<rparr>"
  by (simp add: dragStarted_def square_drawn)
     (simp add: initialState_def handleToolChange_def handleStart_def handleStart_fill_def
        in_square)

lemma dragThenMiss_state:
  "fold step dragThenMiss initialState =
     initialState\<lparr>polygons := [square], activeTool := Hand, selectedPolygon := None,
                   isDragging := True, dragStart := Some \<lparr>x = 50, y = 50\<rparr>\<rparr>"
proof -
  have "fold step dragThenMiss initialState =
          step (Press \<lparr>x = 500, y = 500\<rparr>) (fold step dragStarted initialState)"
    by (simp add: dragThenMiss_def dragStarted_def)
  then show ?thesis
    unfolding dragStarted_state
    by (simp add: initialState_def handleStart_def handleStart_fill_def not_in_square_far)
qed

lemma in_square_60: "isPointInPolygon \<lparr>x = 60, y = 60\<rparr> (points square)"
  by (simp add: isPointInPolygon_def isPointInPolygon_loop.simps square_def Let_def rounded_ops)

lemma square_split:
  "polygons (step (Click \<lparr>x = 50, y = 0\<rparr>) (initialState\<lparr>polygons := [square]\<rparr>)) =
     [square\<lparr>points := [\<lparr>x = 0, y = 0\<rparr>, \<lparr>x = 50, y = 0\<rparr>, \<lparr>x = 100, y = 0\<rparr>,
                          \<lparr>x = 100, y = 100\<rparr>, \<lparr>x = 0, y = 100\<rparr>]\<rparr>]"
  by (simp add: initialState_def handleInteraction_def handlePencilInteraction_def
        square_edge_on spliceInsert_def)
     (simp add: square_def)

theorem committed_polygons_min3_witness:
  "reachable (fold step (squareClicks @ triangleClicks) initialState) \<and>
   map (\<lambda>poly. length (points poly))
     (polygons (fold step (squareClicks @ triangleClicks) initialState)) = [4, 3] \<and>
   length (polygons (step (Click \<lparr>x = 5, y = 5\<rparr>)
      (initialState\<lparr>currentPoints := [\<lparr>x = 0, y = 0\<rparr>, \<lparr>x = 100, y = 0\<rparr>, \<lparr>x = 100, y = 100\<rparr>]\<rparr>)))
     \<noteq> length (polygons
      (initialState\<lparr>currentPoints := [\<lparr>x = 0, y = 0\<rparr>, \<lparr>x = 100, y = 0\<rparr>, \<lparr>x = 100, y = 100\<rparr>]\<rparr>)) \<and>
   2 < length (currentPoints
      (initialState\<lparr>currentPoints := [\<lparr>x = 0, y = 0\<rparr>, \<lparr>x = 100, y = 0\<rparr>, \<lparr>x = 100, y = 100\<rparr>]\<rparr>)) \<and>
   length (polygons (step (Click \<lparr>x = 50, y = 0\<rparr>) (initialState\<lparr>polygons := [square]\<rparr>))) =
     length (polygons (initialState\<lparr>polygons := [square]\<rparr>)) \<and>
   map (\<lambda>poly. length (points poly))
     (polygons (step (Click \<lparr>x = 50, y = 0\<rparr>) (initialState\<lparr>polygons := [square]\<rparr>))) = [5]"
proof -
  have r: "reachable (fold step (squareClicks @ triangleClicks) initialState)"
    by (rule reachable_fold) (rule reachable.initial)
  have c: "length (polygons (step (Click \<lparr>x = 5, y = 5\<rparr>)
      (initialState\<lparr>currentPoints := [\<lparr>x = 0, y = 0\<rparr>, \<lparr>x = 100, y = 0\<rparr>, \<lparr>x = 100, y = 100\<rparr>]\<rparr>)))
     \<noteq> length (polygons
      (initialState\<lparr>currentPoints := [\<lparr>x = 0, y = 0\<rparr>, \<lparr>x = 100, y = 0\<rparr>, \<lparr>x = 100, y = 100\<rparr>]\<rparr>))"
    by (simp add: initialState_def handleInteraction_def handlePencilInteraction_def
          closing_distance)
  have m: "map (\<lambda>poly. length (points poly))
     (polygons (fold step (squareClicks @ triangleClicks) initialState)) = [4, 3]"
    using r committed_polygons_min3 [of "fold step (squareClicks @ triangleClicks) initialState"]
    unfolding both_drawn by (simp add: initialState_def square_def triangle_def)
  have e: "length (polygons (step (Click \<lparr>x = 50, y = 0\<rparr>) (initialState\<lparr>polygons := [square]\<rparr>))) =
     length (polygons (initialState\<lparr>polygons := [square]\<rparr>))"
    unfolding square_split by simp
  have f: "map (\<lambda>poly. length (points poly))
     (polygons (step (Click \<lparr>x = 50, y = 0\<rparr>) (initialState\<lparr>polygons := [square]\<rparr>))) = [5]"
    unfolding square_split by simp
  from r m c e f committed_polygons_min3
    [of "initialState\<lparr>currentPoints := [\<lparr>x = 0, y = 0\<rparr>, \<lparr>x = 100, y = 0\<rparr>, \<lparr>x = 100, y = 100\<rparr>]\<rparr>"
        "\<lparr>x = 5, y = 5\<rparr>"]
    committed_polygons_min3 [of "initialState\<lparr>polygons := [square]\<rparr>" "\<lparr>x = 50, y = 0\<rparr>"]
  show ?thesis by blast
qed


theorem findClosestEdgePoint_closest_edge_witness:
  "findClosestEdgePoint \<lparr>x = 64, y = 3\<rparr>
     [\<lparr>x = 0, y = 0\<rparr>, \<lparr>x = 128, y = 0\<rparr>, \<lparr>x = 128, y = 128\<rparr>, \<lparr>x = 0, y = 128\<rparr>] =
     Some (\<lparr>x = 64, y = 0\<rparr>, 1) \<and>
   edgeProjection \<lparr>x = 64, y = 3\<rparr>
     [\<lparr>x = 0, y = 0\<rparr>, \<lparr>x = 128, y = 0\<rparr>, \<lparr>x = 128, y = 128\<rparr>, \<lparr>x = 0, y = 128\<rparr>] 0 =
     Some \<lparr>x = 64, y = 0\<rparr> \<and>
   distance \<lparr>x = 64, y = 3\<rparr> \<lparr>x = 64, y = 0\<rparr> < EDGE_DETECTION_THRESHOLD \<and>
   findClosestEdgePoint \<lparr>x = 200, y = 200\<rparr> (points square) = None"
  using findClosestEdgePoint_closest_edge [of "\<lparr>x = 64, y = 3\<rparr>"
          "[\<lparr>x = 0, y = 0\<rparr>, \<lparr>x = 128, y = 0\<rparr>, \<lparr>x = 128, y = 128\<rparr>, \<lparr>x = 0, y = 128\<rparr>]"]
        big_square_edge_near square_no_edge_near
  by auto

subsection \<open>A drag and the selected polygon\<close>

text \<open>
  C5 as stated fails: after a press inside the square, a second press on empty canvas
  clears the selection and leaves the drag active.
\<close>

theorem drag_without_selection_counterexample:
  "reachable (fold step dragThenMiss initialState) \<and>
   isDragging (fold step dragThenMiss initialState) \<and>
   selectedPolygon (fold step dragThenMiss initialState) = None"
proof -
  have "reachable (fold step dragThenMiss initialState)"
    by (rule reachable_fold) (rule reachable.initial)
  then show ?thesis
    unfolding dragThenMiss_state by (simp add: initialState_def)
qed

lemma handleStart_fill_miss:
  "handleStart_fillLoop point (polygons s) (length (polygons s)) = None \<Longrightarrow>
     handleStart_fill point s = s\<lparr>selectedPolygon := None, selectedHandle := None\<rparr>"
  by (simp add: handleStart_fill_def)

lemma handleStart_miss:
  assumes "pressHitsNothing point s"
  shows "handleStart point s = Inr (s\<lparr>selectedPolygon := None, selectedHandle := None\<rparr>)"
  using assms
  by (auto simp: pressHitsNothing_def handleStart_def handleStart_fill_miss
           split: option.splits if_splits)

lemma handleStart_fill_hit:
  "handleStart_fillLoop point (polygons s) (length (polygons s)) = Some i \<Longrightarrow>
     selectedPolygon (handleStart_fill point s) = Some i"
  by (simp add: handleStart_fill_def)

lemma handleStart_fill_idle:
  "handleStart_fillLoop point (polygons s) (length (polygons s)) = None \<Longrightarrow>
     isDragging (handleStart_fill point s) = isDragging s"
  by (simp add: handleStart_fill_def)

lemma handleStart_selected:
  assumes "handleStart point s = Inr s'"
    and "isDragging s \<longrightarrow> selectedPolygon s \<noteq> None \<and> \<not> pressHitsNothing point s"
    and "isDragging s'"
  shows "selectedPolygon s' \<noteq> None"
proof (cases "activeTool s = Pencil")
  case True
  with assms show ?thesis by (auto simp: handleStart_def)
next
  case tool: False
  show ?thesis
  proof (cases "handleStart_fillLoop point (polygons s) (length (polygons s))")
    case (Some i)
    with assms(1) tool show ?thesis
      by (auto simp: handleStart_def handleStart_fill_hit split: option.splits if_splits)
  next
    case None
    show ?thesis
    proof (cases "if activeTool s = Select then selectedPolygon s else None")
      case nohandle: None
      with assms(1) tool have s': "s' = handleStart_fill point s"
        by (auto simp: handleStart_def)
      with None assms(3) have d: "isDragging s" by (simp add: handleStart_fill_idle)
      from None tool nohandle have "pressHitsNothing point s"
        by (simp add: pressHitsNothing_def)
      with d assms(2) show ?thesis by simp
    next
      case (Some k)
      then have sel: "selectedPolygon s = Some k" by (simp split: if_splits)
      from assms(1) tool Some have k: "k < length (polygons s)"
        by (auto simp: handleStart_def split: if_splits)
      show ?thesis
      proof (cases "handleStart_handleLoop point (points (polygons s ! k)) 0")
        case (Some i)
        with assms(1) tool \<open>(if activeTool s = Select then selectedPolygon s else None) = Some k\<close> k sel
        show ?thesis by (auto simp: handleStart_def)
      next
        case nohit: None
        with assms(1) tool Some k have s': "s' = handleStart_fill point s"
          by (auto simp: handleStart_def)
        with None assms(3) have d: "isDragging s" by (simp add: handleStart_fill_idle)
        from None tool Some k nohit have "pressHitsNothing point s"
          by (simp add: pressHitsNothing_def)
        with d assms(2) show ?thesis by simp
      qed
    qed
  qed
qed

lemma step_selected:
  assumes "isDragging s \<longrightarrow> selectedPolygon s \<noteq> None"
    and "\<forall>point. e = Press point \<longrightarrow> isDragging s \<longrightarrow> \<not> pressHitsNothing point s"
    and "isDragging (step e s)"
  shows "selectedPolygon (step e s) \<noteq> None"
proof (cases e)
  case (Press point)
  show ?thesis
  proof (cases "handleStart point s")
    case (Inl err)
    with Press assms show ?thesis by simp
  next
    case (Inr s')
    with Press assms show ?thesis
      using handleStart_selected [of point s s'] by simp
  qed
next
  case (Drag point)
  with assms(1,3) show ?thesis
    by (cases "handleMove point s") (auto dest: handleMove_frame)
next
  case Release
  with assms(3) show ?thesis by (simp add: handleEnd_def)
next
  case (Click point)
  with assms(1,3) show ?thesis
    by (auto simp: handleInteraction_def handlePencilInteraction_frame split: if_splits)
next
  case (ToolButton tool)
  with assms(3) show ?thesis by (simp add: handleToolChange_def)
qed

lemma reachableWithoutMiss_selected:
  "reachableWithoutMiss s \<Longrightarrow> isDragging s \<longrightarrow> selectedPolygon s \<noteq> None"
proof (induction rule: reachableWithoutMiss.induct)
  case initialWithoutMiss
  show ?case by (simp add: initialState_def)
next
  case (afterWithoutMiss s e)
  then show ?case using step_selected [of s e] by blast
qed

lemma handleMove_without_selection:
  "selectedPolygon s = None \<Longrightarrow> handleMove point s = Inr s"
  by (simp add: handleMove_def split: bool.splits)

text \<open>
  C5, amended. In every state reached by events of which no press that hits nothing
  arrives while a drag is active, an active drag has a selected polygon. A press that hits
  nothing while a drag is active leaves the drag active and clears the selected polygon.
  In any state without a selected polygon a move event changes nothing.
\<close>

theorem drag_has_selection_unless_press_misses:
  "(reachableWithoutMiss s \<and> isDragging s \<longrightarrow> selectedPolygon s \<noteq> None) \<and>
   (isDragging s \<and> pressHitsNothing point s \<longrightarrow>
      isDragging (step (Press point) s) \<and> selectedPolygon (step (Press point) s) = None) \<and>
   (selectedPolygon s = None \<longrightarrow> step (Drag point) s = s)"
proof (intro conjI impI)
  assume "reachableWithoutMiss s \<and> isDragging s"
  then show "selectedPolygon s \<noteq> None" using reachableWithoutMiss_selected by blast
next
  assume "isDragging s \<and> pressHitsNothing point s"
  then show "isDragging (step (Press point) s)" by (simp add: handleStart_miss)
next
  assume "isDragging s \<and> pressHitsNothing point s"
  then show "selectedPolygon (step (Press point) s) = None" by (simp add: handleStart_miss)
next
  assume "selectedPolygon s = None"
  then show "step (Drag point) s = s" by (simp add: handleMove_without_selection)
qed

lemma reachableWithoutMiss_fold:
  "reachableWithoutMiss s \<Longrightarrow> \<forall>e\<in>set es. \<forall>point. e \<noteq> Press point \<Longrightarrow>
     reachableWithoutMiss (fold step es s)"
  by (induction es arbitrary: s) (auto intro: reachableWithoutMiss.afterWithoutMiss)

lemma dragStarted_without_miss: "reachableWithoutMiss (fold step dragStarted initialState)"
proof -
  have "reachableWithoutMiss (fold step (squareClicks @ [ToolButton Hand]) initialState)"
    by (rule reachableWithoutMiss_fold)
       (auto simp: squareClicks_def intro: reachableWithoutMiss.initialWithoutMiss)
  moreover have "\<not> isDragging (fold step (squareClicks @ [ToolButton Hand]) initialState)"
    by (simp add: handleToolChange_def)
  ultimately have "reachableWithoutMiss (step (Press \<lparr>x = 50, y = 50\<rparr>)
                     (fold step (squareClicks @ [ToolButton Hand]) initialState))"
    by (intro reachableWithoutMiss.afterWithoutMiss) auto
  then show ?thesis by (simp add: dragStarted_def)
qed

lemma press_60_hits:
  "\<not> pressHitsNothing \<lparr>x = 60, y = 60\<rparr> (fold step dragStarted initialState)"
  unfolding dragStarted_state
  by (simp add: pressHitsNothing_def initialState_def in_square_60)

lemma press_500_misses:
  "pressHitsNothing \<lparr>x = 500, y = 500\<rparr> (fold step dragStarted initialState)"
  unfolding dragStarted_state
  by (simp add: pressHitsNothing_def initialState_def not_in_square_far)

lemma press_60_state:
  "step (Press \<lparr>x = 60, y = 60\<rparr>) (fold step dragStarted initialState) =
     initialState\<lparr>polygons := [square], activeTool := Hand, selectedPolygon := Some 0,
                   isDragging := True, dragStart := Some \<lparr>x = 60, y = 60\<rparr>\<rparr>"
  unfolding dragStarted_state
  by (simp add: initialState_def handleStart_def handleStart_fill_def in_square_60)

theorem drag_has_selection_unless_press_misses_witness:
  "reachableWithoutMiss (step (Press \<lparr>x = 60, y = 60\<rparr>) (fold step dragStarted initialState)) \<and>
   isDragging (step (Press \<lparr>x = 60, y = 60\<rparr>) (fold step dragStarted initialState)) \<and>
   selectedPolygon (step (Press \<lparr>x = 60, y = 60\<rparr>) (fold step dragStarted initialState)) = Some 0 \<and>
   isDragging (fold step dragStarted initialState) \<and>
   pressHitsNothing \<lparr>x = 500, y = 500\<rparr> (fold step dragStarted initialState) \<and>
   selectedPolygon (step (Press \<lparr>x = 500, y = 500\<rparr>) (fold step dragStarted initialState)) = None \<and>
   selectedPolygon (fold step dragThenMiss initialState) = None \<and>
   step (Drag \<lparr>x = 60, y = 60\<rparr>) (fold step dragThenMiss initialState) =
     fold step dragThenMiss initialState"
proof -
  have r: "reachableWithoutMiss (step (Press \<lparr>x = 60, y = 60\<rparr>) (fold step dragStarted initialState))"
    using dragStarted_without_miss press_60_hits
    by (intro reachableWithoutMiss.afterWithoutMiss) auto
  have d2: "isDragging (step (Press \<lparr>x = 60, y = 60\<rparr>) (fold step dragStarted initialState))"
    unfolding press_60_state by simp
  have s2: "selectedPolygon (step (Press \<lparr>x = 60, y = 60\<rparr>) (fold step dragStarted initialState)) = Some 0"
    unfolding press_60_state by simp
  have d: "isDragging (fold step dragStarted initialState)"
    unfolding dragStarted_state by simp
  have n: "selectedPolygon (fold step dragThenMiss initialState) = None"
    unfolding dragThenMiss_state by simp
  from drag_has_selection_unless_press_misses
         [of "step (Press \<lparr>x = 60, y = 60\<rparr>) (fold step dragStarted initialState)" "\<lparr>x = 60, y = 60\<rparr>"]
       drag_has_selection_unless_press_misses
         [of "fold step dragStarted initialState" "\<lparr>x = 500, y = 500\<rparr>"]
       drag_has_selection_unless_press_misses
         [of "fold step dragThenMiss initialState" "\<lparr>x = 60, y = 60\<rparr>"]
       r d2 s2 d n press_500_misses
  show ?thesis by blast
qed

subsection \<open>The selected vertex after a fill hit\<close>

text \<open>
  C1 fails on the code: after a vertex of the square was selected and released, a press
  inside the triangle selects the triangle and keeps the vertex index 3, which is not an
  index into the triangle's three points.
\<close>

theorem stale_handle_after_fill_select:
  "reachable (fold step staleHandleTrace initialState) \<and>
   selectedPolygon (fold step staleHandleTrace initialState) = Some 1 \<and>
   selectedHandle (fold step staleHandleTrace initialState) = Some 3 \<and>
   length (points (polygons (fold step staleHandleTrace initialState) ! 1)) = 3"
proof -
  have "reachable (fold step staleHandleTrace initialState)"
    by (rule reachable_fold) (rule reachable.initial)
  then show ?thesis
    unfolding staleHandleTrace_state by (simp add: initialState_def triangle_def)
qed

end
